theory Spec2Isabelle
  imports Complex_Main "HOL-Library.Word"
begin

section \<open>Values shared by the services and the component\<close>

text \<open>
  JavaScript strings are modelled as \<open>string\<close>: one \<open>char\<close> per code unit, restricted
  to code units below 256. Every string the audio utilities build is of that kind (a
  binary string made from bytes, or base64 text). Typed-array bytes are \<open>8 word\<close>,
  \<open>Int16Array\<close> elements are \<open>16 word\<close> read with \<open>sint\<close>.

  Audio samples and device-clock times are \<open>real\<close>: the value a float denotes. The
  operations the sources apply to samples (a multiplication by \<open>32768\<close>, a division of a
  16-bit integer by \<open>32768\<close>) are exact on \<open>Float32Array\<close> elements, so the model
  computes the same values; \<open>NaN\<close> and the infinities are outside it.
\<close>

type_synonym byte = "8 word"
type_synonym int16 = "16 word"

datatype error =
    InvalidCharacterError    \<comment> \<open>\<open>atob\<close> on text that is not base64\<close>
  | RangeError               \<comment> \<open>\<open>new Int16Array(buffer)\<close> on an odd number of bytes\<close>
  | NotSupportedError        \<comment> \<open>\<open>createBuffer\<close> with a zero argument\<close>
  | SyntaxError              \<comment> \<open>\<open>JSON.parse\<close> on text that is not JSON\<close>
  | BackendError             \<comment> \<open>\<open>generateContent\<close> rejected\<close>
  | Error string             \<comment> \<open>\<open>throw new Error(message)\<close>\<close>

section \<open>The platform's base64 functions\<close>

text \<open>
  \<open>btoa\<close> and \<open>atob\<close> are the browser's functions; they are modelled after their
  definition (forgiving-base64 encode and decode over the alphabet of RFC 4648).
\<close>

definition base64_alphabet :: string where
  "base64_alphabet = ''ABCDEFGHIJKLMNOPQRSTUVWXYZabcdefghijklmnopqrstuvwxyz0123456789+/''"

definition b64char :: "nat \<Rightarrow> char" where
  "b64char n = base64_alphabet ! n"

fun index_of :: "'a \<Rightarrow> 'a list \<Rightarrow> nat option" where
  "index_of c [] = None"
| "index_of c (x # xs) = (if x = c then Some 0 else map_option Suc (index_of c xs))"

definition b64index :: "char \<Rightarrow> nat option" where
  "b64index c = index_of c base64_alphabet"

text \<open>The 6-bit groups of a byte sequence, three bytes (24 bits) at a time, most
  significant bits first; a last group of one byte gives two sextets, a last group of
  two bytes gives three, the missing bits being zero.\<close>

fun sextets :: "byte list \<Rightarrow> nat list" where
  "sextets [] = []"
| "sextets [a] = [unat a div 4, unat a mod 4 * 16]"
| "sextets [a, b] =
     [unat a div 4, unat a mod 4 * 16 + unat b div 16, unat b mod 16 * 4]"
| "sextets (a # b # c # bs) =
     [unat a div 4, unat a mod 4 * 16 + unat b div 16,
      unat b mod 16 * 4 + unat c div 64, unat c mod 64] @ sextets bs"

definition padding :: "nat \<Rightarrow> string" where
  "padding len = replicate ((3 - len mod 3) mod 3) (CHR ''='')"

definition btoa :: "string \<Rightarrow> string" where
  "btoa s =
     (let bytes = map (\<lambda>c. of_nat (of_char c)) s
      in map b64char (sextets bytes) @ padding (length bytes))"

definition is_ascii_whitespace :: "char \<Rightarrow> bool" where
  "is_ascii_whitespace c = (c \<in> {CHR 0x09, CHR 0x0A, CHR 0x0C, CHR 0x0D, CHR '' ''})"

definition strip_padding :: "string \<Rightarrow> string" where
  "strip_padding s =
     (case rev s of
        c1 # c2 # r \<Rightarrow>
          (if c1 = CHR ''='' \<and> c2 = CHR ''='' then rev r
           else if c1 = CHR ''='' then rev (c2 # r) else s)
      | [c1] \<Rightarrow> (if c1 = CHR ''='' then [] else s)
      | [] \<Rightarrow> s)"

text \<open>The bit buffer of the decoder: four sextets make three bytes; a rest of three
  sextets (18 bits) makes two bytes, a rest of two (12 bits) makes one, the last bits
  being discarded.\<close>

fun decode_groups :: "nat list \<Rightarrow> byte list" where
  "decode_groups (a # b # c # d # ns) =
     [of_nat (a * 4 + b div 16), of_nat (b mod 16 * 16 + c div 4), of_nat (c mod 4 * 64 + d)]
     @ decode_groups ns"
| "decode_groups [a, b, c] = [of_nat (a * 4 + b div 16), of_nat (b mod 16 * 16 + c div 4)]"
| "decode_groups [a, b] = [of_nat (a * 4 + b div 16)]"
| "decode_groups [a] = []"
| "decode_groups [] = []"

definition atob :: "string \<Rightarrow> error + string" where
  "atob s =
     (let data = filter (\<lambda>c. \<not> is_ascii_whitespace c) s;
          data = (if length data mod 4 = 0 then strip_padding data else data)
      in if length data mod 4 = 1 then Inl InvalidCharacterError
         else (case those (map b64index data) of
                 None \<Rightarrow> Inl InvalidCharacterError
               | Some ns \<Rightarrow> Inr (map (\<lambda>b. char_of (unat b)) (decode_groups ns))))"

section \<open>Live audio utilities\<close>

definition decodeBase64 :: "string \<Rightarrow> error + byte list" where
  "decodeBase64 base64 =
     (case atob base64 of
        Inl e \<Rightarrow> Inl e
      | Inr binaryString \<Rightarrow> Inr (map (\<lambda>c. of_nat (of_char c)) binaryString))"

definition encodeBase64 :: "byte list \<Rightarrow> string" where
  "encodeBase64 bytes = btoa (map (\<lambda>b. char_of (unat b)) bytes)"

text \<open>Storing a number into an \<open>Int16Array\<close>: truncate towards zero, reduce modulo
  \<open>2 ^ 16\<close>, read as two's complement.\<close>

definition js_truncate :: "real \<Rightarrow> int" where
  "js_truncate x = (if 0 \<le> x then \<lfloor>x\<rfloor> else \<lceil>x\<rceil>)"

definition ToInt16 :: "real \<Rightarrow> int16" where
  "ToInt16 x = word_of_int (js_truncate x mod 65536)"

text \<open>The byte view of an \<open>Int16Array\<close>'s buffer and back, little-endian.\<close>

definition Uint8Array_of_int16 :: "int16 list \<Rightarrow> byte list" where
  "Uint8Array_of_int16 ws =
     concat (map (\<lambda>w. [of_nat (unat w mod 256), of_nat (unat w div 256)]) ws)"

fun int16_pairs :: "byte list \<Rightarrow> int16 list" where
  "int16_pairs (lo # hi # bs) = of_nat (unat lo + 256 * unat hi) # int16_pairs bs"
| "int16_pairs bs = []"

definition Int16Array_of_buffer :: "byte list \<Rightarrow> error + int16 list" where
  "Int16Array_of_buffer data =
     (if length data mod 2 = 0 then Inr (int16_pairs data) else Inl RangeError)"

record PcmBlob =
  blob_data :: string
  mimeType :: string

definition createPcmBlob :: "real list \<Rightarrow> PcmBlob" where
  "createPcmBlob data =
     (let int16 = map (\<lambda>x. ToInt16 (x * 32768)) data
      in \<lparr>blob_data = encodeBase64 (Uint8Array_of_int16 int16),
          mimeType = ''audio/pcm;rate=16000''\<rparr>)"

record AudioBuffer =
  numberOfChannels :: nat
  frames :: nat
  sampleRate :: nat
  channelData :: "real list list"

definition duration :: "AudioBuffer \<Rightarrow> real" where
  "duration b = real (frames b) / real (sampleRate b)"

text \<open>\<open>createBuffer\<close> of the audio context: a buffer of silence, or
  \<open>NotSupportedError\<close> when an argument is zero (a buffer has at least one channel
  and one frame). Upper limits on the arguments depend on the browser and are not
  modelled; \<open>App\<close> asks for one channel at 24000 Hz, which every browser provides.\<close>

definition createBuffer :: "nat \<Rightarrow> nat \<Rightarrow> nat \<Rightarrow> error + AudioBuffer" where
  "createBuffer numChannels frameCount rate =
     (if numChannels = 0 \<or> frameCount = 0 \<or> rate = 0 then Inl NotSupportedError
      else Inr \<lparr>numberOfChannels = numChannels, frames = frameCount, sampleRate = rate,
                channelData = replicate numChannels (replicate frameCount 0)\<rparr>)"

text \<open>\<open>decodeAudioData\<close>. The quotient \<open>frameCount\<close> is truncated when
  \<open>createBuffer\<close> takes it as a length, and the loop writes nothing beyond that
  length, so the model divides with \<open>div\<close>.\<close>

definition decodeAudioData :: "byte list \<Rightarrow> nat \<Rightarrow> nat \<Rightarrow> error + AudioBuffer" where
  "decodeAudioData data rate numChannels =
     (case Int16Array_of_buffer data of
        Inl e \<Rightarrow> Inl e
      | Inr dataInt16 \<Rightarrow>
          (let frameCount = length dataInt16 div numChannels
           in case createBuffer numChannels frameCount rate of
                Inl e \<Rightarrow> Inl e
              | Inr buffer \<Rightarrow>
                  Inr (buffer\<lparr>channelData :=
                         map (\<lambda>channel.
                                map (\<lambda>i. real_of_int (sint (dataInt16 ! (i * numChannels + channel)))
                                          / 32768)
                                    [0..<frameCount])
                             [0..<numChannels]\<rparr>)))"

text \<open>The round trip of the wire format: the samples \<open>decodeAudioData\<close> reads, with
  one channel at the playback rate, from the bytes \<open>decodeBase64\<close> gives for the blob
  that \<open>createPcmBlob\<close> made.\<close>

definition wire_round_trip :: "real list \<Rightarrow> error + AudioBuffer" where
  "wire_round_trip s =
     (case decodeBase64 (blob_data (createPcmBlob s)) of
        Inl e \<Rightarrow> Inl e
      | Inr bytes \<Rightarrow> decodeAudioData bytes 24000 1)"

section \<open>Types of the triage service\<close>

datatype AccountTier = Free | Pro | Enterprise

record GroundingSource =
  title :: string
  uri :: string

record TriageInput =
  customer_message :: string
  account_tier :: AccountTier
  recent_activity_summary :: string
  use_search :: "bool option"    \<comment> \<open>\<open>use_search?: boolean\<close>\<close>

text \<open>\<open>TriageResult\<close>: the object \<open>JSON.parse\<close> returned (of a type \<open>'j\<close> left
  open), spread into a new object next to \<open>grounding_sources\<close>.\<close>

record 'j TriageResult =
  parsed :: 'j
  grounding_sources :: "GroundingSource list"

record LiveTranscription =
  entry_text :: string
  isUser :: bool

section \<open>String operations of the language\<close>

text \<open>\<open>String.prototype.trim\<close> removes white space and line terminators at both
  ends; among the code units below 256 these are the seven listed.\<close>

definition is_js_whitespace :: "char \<Rightarrow> bool" where
  "is_js_whitespace c =
     (c \<in> {CHR 0x09, CHR 0x0A, CHR 0x0B, CHR 0x0C, CHR 0x0D, CHR '' '', CHR 0xA0})"

definition trim :: "string \<Rightarrow> string" where
  "trim s = rev (dropWhile is_js_whitespace (rev (dropWhile is_js_whitespace s)))"

definition indexOf :: "string \<Rightarrow> char \<Rightarrow> int" where
  "indexOf s c = (case index_of c s of None \<Rightarrow> - 1 | Some i \<Rightarrow> int i)"

definition lastIndexOf :: "string \<Rightarrow> char \<Rightarrow> int" where
  "lastIndexOf s c =
     (case index_of c (rev s) of None \<Rightarrow> - 1 | Some i \<Rightarrow> int (length s) - 1 - int i)"

text \<open>\<open>slice(start, end)\<close> for indices that are not negative, the only ones
  \<open>triageMessage\<close> passes: the code units from \<open>start\<close> up to \<open>end\<close>, none when
  \<open>end \<le> start\<close>.\<close>

definition slice :: "string \<Rightarrow> int \<Rightarrow> int \<Rightarrow> string" where
  "slice s start end' =
     (let from = min (nat start) (length s); to = min (nat end') (length s)
      in take (to - from) (drop from s))"

text \<open>\<open>Array.prototype.join\<close>.\<close>

fun join :: "string \<Rightarrow> string list \<Rightarrow> string" where
  "join sep [] = []"
| "join sep [x] = x"
| "join sep (x # y # zs) = x @ sep @ join sep (y # zs)"

section \<open>The triage service\<close>

text \<open>
  The remote service is a parameter \<open>backend\<close>, a function from the request to the
  response or to a rejection; \<open>JSON.parse\<close> is a parameter \<open>JSON_parse\<close> that gives
  \<open>None\<close> where the platform's function throws \<open>SyntaxError\<close>. Of a response the
  model keeps what \<open>triageMessage\<close> reads: \<open>response.text\<close> and
  \<open>response.candidates?.[0]?.groundingMetadata?.groundingChunks\<close>, each absent or
  present; a chunk is its \<open>web\<close> part, absent or present.
\<close>

record GroundingChunkWeb =
  web_title :: "string option"
  web_uri :: string

record GenerateContentResponse =
  response_text :: "string option"
  groundingChunks :: "GroundingChunkWeb option list option"

record GenerateContentRequest =
  model :: string
  contents_input :: TriageInput    \<comment> \<open>the object under \<open>JSON.stringify\<close> in \<open>contents\<close>\<close>
  temperature :: real
  maxOutputTokens :: nat
  responseMimeType :: string
  googleSearch :: bool             \<comment> \<open>\<open>tools\<close> holds \<open>googleSearch\<close>\<close>

definition processedInput :: "TriageInput \<Rightarrow> TriageInput" where
  "processedInput input =
     input\<lparr>recent_activity_summary :=
             (let trimmed = trim (recent_activity_summary input)
              in if trimmed = [] then ''no recent changes'' else trimmed)\<rparr>"

definition build_request :: "TriageInput \<Rightarrow> GenerateContentRequest" where
  "build_request input =
     \<lparr>model = ''gemini-3-flash-preview'',
      contents_input = processedInput input,
      temperature = 0,
      maxOutputTokens = 300,
      responseMimeType = ''application/json'',
      googleSearch = (use_search input = Some True)\<rparr>"

definition parse_response :: "(string \<Rightarrow> 'j option) \<Rightarrow> string \<Rightarrow> error + 'j" where
  "parse_response JSON_parse raw =
     (case JSON_parse (trim raw) of
        Some result \<Rightarrow> Inr result
      | None \<Rightarrow>
          (let start = indexOf raw (CHR ''{'');
               end' = lastIndexOf raw (CHR ''}'')
           in if start \<noteq> - 1 \<and> end' \<noteq> - 1
              then (case JSON_parse (slice raw start (end' + 1)) of
                      Some result \<Rightarrow> Inr result
                    | None \<Rightarrow> Inl SyntaxError)
              else Inl (Error ''Could not parse JSON response'')))"

definition extract_grounding :: "TriageInput \<Rightarrow> GenerateContentResponse \<Rightarrow> GroundingSource list" where
  "extract_grounding input response =
     (if use_search input = Some True
      then (case groundingChunks response of
              None \<Rightarrow> []
            | Some chunks \<Rightarrow>
                concat (map (\<lambda>chunk.
                  case chunk of
                    None \<Rightarrow> []
                  | Some web \<Rightarrow>
                      [\<lparr>title = (case web_title web of
                                   None \<Rightarrow> ''Source''
                                 | Some t \<Rightarrow> if t = [] then ''Source'' else t),
                        uri = web_uri web\<rparr>]) chunks))
      else [])"

text \<open>\<open>triageMessage\<close> returns the request it sent together with its result.\<close>

definition triageMessage ::
  "(string \<Rightarrow> 'j option) \<Rightarrow> (GenerateContentRequest \<Rightarrow> error + GenerateContentResponse)
   \<Rightarrow> TriageInput \<Rightarrow> GenerateContentRequest \<times> (error + 'j TriageResult)" where
  "triageMessage JSON_parse backend input =
     (let request = build_request input
      in (request,
          case backend request of
            Inl e \<Rightarrow> Inl e
          | Inr response \<Rightarrow>
              (case response_text response of
                 None \<Rightarrow> Inl (Error ''Empty response from AI engine'')
               | Some raw \<Rightarrow>
                   if raw = [] then Inl (Error ''Empty response from AI engine'')
                   else (case parse_response JSON_parse raw of
                           Inl e \<Rightarrow> Inl e
                         | Inr result \<Rightarrow>
                             Inr \<lparr>parsed = result,
                                  grounding_sources = extract_grounding input response\<rparr>))))"

section \<open>The component: state, handlers and their effects\<close>

text \<open>
  The state of \<open>App\<close> that the live session touches: React state (\<open>input\<close>,
  \<open>loading\<close>, \<open>error\<close>, \<open>isLiveMode\<close>, \<open>liveTranscription\<close>) and the refs. Device
  objects are handles (\<open>nat\<close>): a media stream is the list of its tracks, the set of
  active sources is the list of its members in insertion order, and \<open>sourcesCreated\<close>
  numbers the nodes \<open>createBufferSource\<close> has made, so that each new node is a new
  handle. What a handler does to the devices and to the service is the list of effects
  it returns, in order. A handler runs to its end before the next one starts; the
  continuation of \<open>handleTriage\<close> after the service answers is not modelled.
\<close>

record AudioContexts =
  ctx_input :: nat
  ctx_output :: nat

datatype effect =
    TrackStop nat              \<comment> \<open>\<open>t.stop()\<close> on a microphone track\<close>
  | ContextClose nat           \<comment> \<open>\<open>close()\<close> on an audio context\<close>
  | SessionClose nat           \<comment> \<open>\<open>close()\<close> on the streaming session\<close>
  | SourceStart nat real real  \<comment> \<open>\<open>source.start(when)\<close>: node, start time, buffer duration\<close>
  | SourceStop nat             \<comment> \<open>\<open>s.stop()\<close> on a buffer source node\<close>
  | TriageCall TriageInput     \<comment> \<open>\<open>triageMessage(finalInput)\<close>\<close>

record AppState =
  input :: TriageInput
  loading :: bool
  error_msg :: "string option"
  isLiveMode :: bool
  liveTranscription :: "LiveTranscription list"
  audioContextsRef :: "AudioContexts option"
  streamRef :: "nat list option"
  sessionRef :: "nat option"
  nextStartTimeRef :: real
  activeSourcesRef :: "nat list"
  sourcesCreated :: nat

text \<open>\<open>handleTriage\<close> up to the call of the service.\<close>

definition handleTriage :: "TriageInput option \<Rightarrow> AppState \<Rightarrow> AppState \<times> effect list" where
  "handleTriage overrideInput s =
     (let finalInput = (case overrideInput of Some i \<Rightarrow> i | None \<Rightarrow> input s)
      in if trim (customer_message finalInput) = [] then (s, [])
         else (s\<lparr>loading := True, error_msg := None\<rparr>, [TriageCall finalInput]))"

definition stopLiveTriage :: "AppState \<Rightarrow> AppState \<times> effect list" where
  "stopLiveTriage s =
     (let (s1, e1) = (case streamRef s of
                        Some tracks \<Rightarrow> (s\<lparr>streamRef := None\<rparr>, map TrackStop tracks)
                      | None \<Rightarrow> (s, []));
          (s2, e2) = (case audioContextsRef s1 of
                        Some ctxs \<Rightarrow>
                          (s1\<lparr>audioContextsRef := None\<rparr>,
                           [ContextClose (ctx_input ctxs), ContextClose (ctx_output ctxs)])
                      | None \<Rightarrow> (s1, []));
          (s3, e3) = (case sessionRef s2 of
                        Some session \<Rightarrow> (s2\<lparr>sessionRef := None\<rparr>, [SessionClose session])
                      | None \<Rightarrow> (s2, []));
          s4 = s3\<lparr>isLiveMode := False\<rparr>;
          (s5, e5) =
            (if liveTranscription s4 \<noteq> []
             then (let fullTranscript =
                         join '' '' (map entry_text (filter isUser (liveTranscription s4)))
                   in if trim fullTranscript \<noteq> []
                      then (let liveInput = (input s4)\<lparr>customer_message := fullTranscript\<rparr>
                            in handleTriage (Some liveInput) (s4\<lparr>input := liveInput\<rparr>))
                      else (s4, []))
             else (s4, []))
      in (s5, e1 @ e2 @ e3 @ e5))"

text \<open>A message of the live session, as far as \<open>onmessage\<close> reads it:
  \<open>serverContent.inputTranscription.text\<close>, \<open>serverContent.outputTranscription.text\<close>,
  \<open>serverContent.modelTurn.parts[0].inlineData.data\<close> and \<open>serverContent.interrupted\<close>.\<close>

record LiveServerMessage =
  inputTranscription :: "string option"
  outputTranscription :: "string option"
  inlineData :: "string option"
  interrupted :: bool

text \<open>The body of \<open>if (base64Audio)\<close> once the output context is there: the cursor is
  clamped to the device's \<open>currentTime\<close>, the chunk is decoded (at 24000 Hz, one
  channel), a new source node is started at the cursor, the cursor advances by the
  buffer's duration, the node joins the active set. An exception of the decoding leaves
  the handler there, the cursor already clamped.\<close>

definition scheduleChunk :: "real \<Rightarrow> string \<Rightarrow> AppState \<Rightarrow> AppState \<times> effect list \<times> error option" where
  "scheduleChunk currentTime base64Audio s =
     (let s1 = s\<lparr>nextStartTimeRef := max (nextStartTimeRef s) currentTime\<rparr>
      in case decodeBase64 base64Audio of
           Inl e \<Rightarrow> (s1, [], Some e)
         | Inr bytes \<Rightarrow>
             (case decodeAudioData bytes 24000 1 of
                Inl e \<Rightarrow> (s1, [], Some e)
              | Inr buffer \<Rightarrow>
                  (let source = sourcesCreated s1
                   in (s1\<lparr>sourcesCreated := Suc source,
                          nextStartTimeRef := nextStartTimeRef s1 + duration buffer,
                          activeSourcesRef :=
                            (if source \<in> set (activeSourcesRef s1) then activeSourcesRef s1
                             else activeSourcesRef s1 @ [source])\<rparr>,
                       [SourceStart source (nextStartTimeRef s1) (duration buffer)],
                       None))))"

text \<open>The body of \<open>if (msg.serverContent?.interrupted)\<close>.\<close>

definition interrupt :: "AppState \<Rightarrow> AppState \<times> effect list" where
  "interrupt s =
     (s\<lparr>activeSourcesRef := [], nextStartTimeRef := 0\<rparr>,
      map SourceStop (activeSourcesRef s))"

text \<open>\<open>source.onended\<close>.\<close>

definition onended :: "nat \<Rightarrow> AppState \<Rightarrow> AppState" where
  "onended source s = s\<lparr>activeSourcesRef := removeAll source (activeSourcesRef s)\<rparr>"

definition onmessage ::
  "real \<Rightarrow> LiveServerMessage \<Rightarrow> AppState \<Rightarrow> AppState \<times> effect list \<times> error option" where
  "onmessage currentTime msg s =
     (let s1 = (case inputTranscription msg of
                  Some t \<Rightarrow> s\<lparr>liveTranscription :=
                                liveTranscription s @ [\<lparr>entry_text = t, isUser = True\<rparr>]\<rparr>
                | None \<Rightarrow> s);
          s2 = (case outputTranscription msg of
                  Some t \<Rightarrow> s1\<lparr>liveTranscription :=
                                 liveTranscription s1 @ [\<lparr>entry_text = t, isUser = False\<rparr>]\<rparr>
                | None \<Rightarrow> s1);
          base64Audio = (case inlineData msg of Some d \<Rightarrow> d | None \<Rightarrow> [])
      in if base64Audio \<noteq> [] \<and> audioContextsRef s2 = None then (s2, [], None)
         else (let (s3, e3, err) = (if base64Audio \<noteq> [] then scheduleChunk currentTime base64Audio s2
                                    else (s2, [], None))
               in case err of
                    Some e \<Rightarrow> (s3, e3, Some e)
                  | None \<Rightarrow>
                      if interrupted msg
                      then (let (s4, e4) = interrupt s3 in (s4, e3 @ e4, None))
                      else (s3, e3, None)))"

text \<open>The life of a session as a sequence of events: a message handled when the
  device clock shows a time, or the end of a node's playback.\<close>

datatype event = Message real LiveServerMessage | Ended nat

fun run :: "event list \<Rightarrow> AppState \<Rightarrow> AppState \<times> effect list" where
  "run [] s = (s, [])"
| "run (Message t msg # evs) s =
     (let (s1, e1, err) = onmessage t msg s; (s2, e2) = run evs s1 in (s2, e1 @ e2))"
| "run (Ended source # evs) s = run evs (onended source s)"

text \<open>What the claims read off an effect list.\<close>

fun start_of :: "effect \<Rightarrow> (real \<times> real) list" where
  "start_of (SourceStart source when dur) = [(when, dur)]"
| "start_of _ = []"

definition starts :: "effect list \<Rightarrow> (real \<times> real) list" where
  "starts es = concat (map start_of es)"

fun is_release :: "effect \<Rightarrow> bool" where
  "is_release (TrackStop t) = True"
| "is_release (ContextClose c) = True"
| "is_release (SessionClose c) = True"
| "is_release _ = False"

fun triage_call :: "effect \<Rightarrow> TriageInput list" where
  "triage_call (TriageCall i) = [i]"
| "triage_call _ = []"

definition triage_calls :: "effect list \<Rightarrow> TriageInput list" where
  "triage_calls es = concat (map triage_call es)"

text \<open>No message of the sequence carries the interruption flag.\<close>

fun no_interrupt :: "event list \<Rightarrow> bool" where
  "no_interrupt [] = True"
| "no_interrupt (Message t msg # evs) = (\<not> interrupted msg \<and> no_interrupt evs)"
| "no_interrupt (Ended source # evs) = no_interrupt evs"

text \<open>The device times at which the messages of a sequence are handled; the clock of
  the audio context does not run backwards.\<close>

fun message_times :: "event list \<Rightarrow> real list" where
  "message_times [] = []"
| "message_times (Message t msg # evs) = t # message_times evs"
| "message_times (Ended source # evs) = message_times evs"

definition clock_monotone :: "event list \<Rightarrow> bool" where
  "clock_monotone evs = sorted (message_times evs)"

text \<open>The buffers scheduled over a sequence of events, in scheduling order: for each,
  the device time at which its chunk was handled, its start time and its duration.\<close>

fun scheduled :: "event list \<Rightarrow> AppState \<Rightarrow> (real \<times> real \<times> real) list" where
  "scheduled [] s = []"
| "scheduled (Message t msg # evs) s =
     (let (s1, e1, err) = onmessage t msg s
      in map (\<lambda>(when, dur). (t, when, dur)) (starts e1) @ scheduled evs s1)"
| "scheduled (Ended source # evs) s = scheduled evs (onended source s)"

text \<open>Each buffer starts at the later of two times: the end of the buffer before it
  (a given cursor \<open>c\<close> for the first) and the time at which its chunk was handled.\<close>

fun anchored :: "real \<Rightarrow> (real \<times> real \<times> real) list \<Rightarrow> bool" where
  "anchored c [] = True"
| "anchored c ((t, when, dur) # rest) = (when = max c t \<and> anchored (when + dur) rest)"

section \<open>Stand-ins for the parameters\<close>

text \<open>A service that answers every request with a given text and given grounding
  chunks, a parser that accepts exactly one text, and the input of the end-to-end
  scenario; the theorems are instantiated with them.\<close>

definition answering ::
  "string \<Rightarrow> GroundingChunkWeb option list option \<Rightarrow> GenerateContentRequest
   \<Rightarrow> error + GenerateContentResponse" where
  "answering raw chunks request = Inr \<lparr>response_text = Some raw, groundingChunks = chunks\<rparr>"

definition parse_only :: "string \<Rightarrow> 'j \<Rightarrow> string \<Rightarrow> 'j option" where
  "parse_only accepted v s = (if s = accepted then Some v else None)"

definition csv_crash :: TriageInput where
  "csv_crash = \<lparr>customer_message = ''App crashes on CSV upload'', account_tier = Pro,
                 recent_activity_summary = [], use_search = Some False\<rparr>"

text \<open>A message with two frames of silence (four zero bytes), the message that only
  interrupts, a running session with the transcript of the voice scenario, and the same
  session when the only transcript entry is a user's blank.\<close>

definition two_frames :: LiveServerMessage where
  "two_frames = \<lparr>inputTranscription = None, outputTranscription = None,
                  inlineData = Some ''AAAAAA=='', interrupted = False\<rparr>"

definition voice_session :: AppState where
  "voice_session =
     \<lparr>input = \<lparr>customer_message = [], account_tier = Pro,
                recent_activity_summary = ''Upgraded plan yesterday'', use_search = Some False\<rparr>,
      loading = False, error_msg = None, isLiveMode = True,
      liveTranscription =
        [\<lparr>entry_text = ''I can't log in'', isUser = True\<rparr>,
         \<lparr>entry_text = ''I see, let me help'', isUser = False\<rparr>,
         \<lparr>entry_text = ''It just times out'', isUser = True\<rparr>],
      audioContextsRef = Some \<lparr>ctx_input = 0, ctx_output = 1\<rparr>,
      streamRef = Some [0], sessionRef = Some 0,
      nextStartTimeRef = 0, activeSourcesRef = [], sourcesCreated = 0\<rparr>"

definition blank_session :: AppState where
  "blank_session = voice_session\<lparr>liveTranscription := [\<lparr>entry_text = '' '', isUser = True\<rparr>]\<rparr>"

definition barge_in :: LiveServerMessage where
  "barge_in = \<lparr>inputTranscription = None, outputTranscription = None,
                inlineData = None, interrupted = True\<rparr>"


section \<open>Base64: decoding inverts encoding\<close>

lemma index_of_nth: "distinct xs \<Longrightarrow> n < length xs \<Longrightarrow> index_of (xs ! n) xs = Some n"
proof (induction xs arbitrary: n)
  case Nil then show ?case by simp
next
  case (Cons x xs)
  show ?case
  proof (cases n)
    case 0 then show ?thesis by simp
  next
    case (Suc m)
    with Cons.prems have "m < length xs" "distinct xs" "xs ! m \<noteq> x"
      by (auto simp: nth_mem)
    with Cons.IH[of m] Suc show ?thesis by auto
  qed
qed

lemma alphabet_length: "length base64_alphabet = 64"
  by (simp add: base64_alphabet_def)

lemma alphabet_distinct: "distinct base64_alphabet"
  by (simp add: base64_alphabet_def)

lemma b64index_b64char: "n < 64 \<Longrightarrow> b64index (b64char n) = Some n"
  unfolding b64index_def b64char_def
  by (rule index_of_nth) (simp_all add: alphabet_distinct alphabet_length)

lemma alphabet_plain: "c \<in> set base64_alphabet \<Longrightarrow> c \<noteq> CHR ''='' \<and> \<not> is_ascii_whitespace c"
  by (auto simp add: base64_alphabet_def is_ascii_whitespace_def)

lemma b64char_plain: "n < 64 \<Longrightarrow> b64char n \<noteq> CHR ''='' \<and> \<not> is_ascii_whitespace (b64char n)"
  unfolding b64char_def by (rule alphabet_plain) (simp add: alphabet_length)

lemma unat_byte_less: "unat (b::byte) < 256"
  using unsigned_less[of b, where ?'a = nat] by simp

lemma sextets_bound: "n \<in> set (sextets bs) \<Longrightarrow> n < 64"
proof (induction bs arbitrary: n rule: sextets.induct)
  case 1 then show ?case by simp
next
  case (2 a)
  have "unat a < 256" by (rule unat_byte_less)
  with 2 show ?case by auto
next
  case (3 a b)
  have "unat a < 256" "unat b < 256" by (rule unat_byte_less)+
  with 3 show ?case by (auto simp: Let_def)
next
  case (4 a b c bs)
  have "unat a < 256" "unat b < 256" "unat c < 256" by (rule unat_byte_less)+
  with 4 show ?case by (auto simp: Let_def)
qed

lemma padding_Cons3: "padding (length (a # b # c # bs)) = padding (length bs)"
proof -
  have "length (a # b # c # bs) mod 3 = length bs mod 3"
    using mod_add_self2[of "length bs" 3] by (simp del: mod_add_self2)
  then show ?thesis unfolding padding_def by presburger
qed

lemma mod4_add4: "(4 + n) mod 4 = (n::nat) mod 4" by simp

lemma sextets_length:
  "length (sextets bs) mod 4 \<noteq> 1 \<and> (length (sextets bs) + length (padding (length bs))) mod 4 = 0"
proof (induction bs rule: sextets.induct)
  case (4 a b c bs)
  have "length (sextets (a # b # c # bs)) = 4 + length (sextets bs)" by simp
  with 4 show ?case unfolding padding_Cons3 by (simp only: mod4_add4 add.assoc) simp
qed (simp_all add: padding_def)

lemma decode_sextets: "decode_groups (sextets bs) = bs"
proof (induction bs rule: sextets.induct)
  case (4 a b c bs)
  then show ?case using unat_byte_less[of b] unat_byte_less[of c] by simp
next
  case (3 a b)
  then show ?case using unat_byte_less[of b] by simp
qed simp_all

lemma strip_padding_append:
  assumes "CHR ''='' \<notin> set xs" "k \<le> 2"
  shows "strip_padding (xs @ replicate k (CHR ''='')) = xs"
proof -
  consider "k = 0" | "k = 1" | "k = 2" using assms(2) by linarith
  then show ?thesis
  proof cases
    case 1
    with assms(1) show ?thesis
      by (cases xs rule: rev_cases) (auto simp: strip_padding_def split: list.splits)
  next
    case 2
    with assms(1) show ?thesis
      by (auto simp: strip_padding_def split: list.splits)
  next
    case 3
    then show ?thesis
      by (auto simp: strip_padding_def numeral_2_eq_2 split: list.splits)
  qed
qed

lemma those_b64index: "\<forall>n\<in>set ns. n < 64 \<Longrightarrow> those (map b64index (map b64char ns)) = Some ns"
  by (induction ns) (simp_all add: b64index_b64char)

lemma unat_byte_mod: "unat (b::byte) mod 256 = unat b"
  using unat_byte_less[of b] by simp

lemma atob_btoa_bytes:
  "atob (map b64char (sextets bs) @ padding (length bs)) = Inr (map (\<lambda>b. char_of (unat b)) bs)"
proof -
  let ?body = "map b64char (sextets bs)"
  let ?t = "?body @ padding (length bs)"
  have plain: "\<forall>c\<in>set ?body. c \<noteq> CHR ''='' \<and> \<not> is_ascii_whitespace c"
    using sextets_bound b64char_plain by auto
  have ws_eq: "\<not> is_ascii_whitespace (CHR ''='')" by (simp add: is_ascii_whitespace_def)
  have f: "filter (\<lambda>c. \<not> is_ascii_whitespace c) ?t = ?t"
    using plain ws_eq by (auto simp: padding_def filter_id_conv)
  have len: "length ?t mod 4 = 0"
    using sextets_length[of bs] by simp
  have strip: "strip_padding ?t = ?body"
    unfolding padding_def using plain by (intro strip_padding_append) auto
  have l1: "length ?body mod 4 \<noteq> 1" using sextets_length[of bs] by simp
  have th: "those (map b64index ?body) = Some (sextets bs)"
    using sextets_bound by (intro those_b64index) auto
  show ?thesis
    unfolding atob_def Let_def f using len strip l1 th by (simp add: decode_sextets)
qed

lemma decode_encode_base64: "decodeBase64 (encodeBase64 bs) = Inr bs"
proof -
  have m: "map (\<lambda>c. of_nat (of_char c)) (map (\<lambda>b. char_of (unat b)) bs) = bs"
    by (induction bs) (simp_all add: unat_byte_mod)
  show ?thesis
    unfolding decodeBase64_def encodeBase64_def btoa_def Let_def m length_map
    by (simp add: atob_btoa_bytes m del: map_map)
qed

section \<open>PCM conversion\<close>

lemma int16_bytes_inverse:
  "of_nat (unat (word_of_nat (unat w mod 256) :: byte) + 256 * unat (word_of_nat (unat w div 256) :: byte)) = (w::int16)"
proof -
  have "unat w < 65536" using unsigned_less[of w, where ?'a = nat] by simp
  then have "unat w div 256 < 256" by simp
  then have "unat (word_of_nat (unat w mod 256) :: byte) = unat w mod 256"
       "unat (word_of_nat (unat w div 256) :: byte) = unat w div 256"
    by (simp_all add: unat_of_nat)
  then show ?thesis by simp
qed

lemma int16_pairs_bytes: "int16_pairs (Uint8Array_of_int16 ws) = ws"
  unfolding Uint8Array_of_int16_def
  by (induction ws) (simp_all add: int16_bytes_inverse del: of_nat_add of_nat_mult)

lemma length_Uint8Array_of_int16: "length (Uint8Array_of_int16 ws) = 2 * length ws"
  unfolding Uint8Array_of_int16_def by (induction ws) simp_all

lemma Int16Array_of_bytes: "Int16Array_of_buffer (Uint8Array_of_int16 ws) = Inr ws"
  by (simp add: Int16Array_of_buffer_def length_Uint8Array_of_int16 int16_pairs_bytes)

lemma truncate_bounds:
  assumes "- 32768 \<le> y" "y < 32768"
  shows "- 32768 \<le> js_truncate y \<and> js_truncate y < 32768"
  using assms unfolding js_truncate_def by (auto simp: le_floor_iff floor_less_iff ceiling_less_iff le_ceiling_iff)

lemma truncate_error: "\<bar>real_of_int (js_truncate y) - y\<bar> < 1"
  unfolding js_truncate_def by (auto; linarith)

lemma sint_ToInt16:
  assumes "- 32768 \<le> y" "y < 32768"
  shows "sint (ToInt16 y) = js_truncate y"
proof -
  have b: "- 32768 \<le> js_truncate y \<and> js_truncate y < 32768" using assms by (rule truncate_bounds)
  have "(word_of_int (js_truncate y mod 65536) :: int16) = word_of_int (js_truncate y)"
    by (simp add: word_of_int_eq_iff take_bit_eq_mod)
  then have "sint (ToInt16 y) = sint (word_of_int (js_truncate y) :: int16)"
    unfolding ToInt16_def by simp
  also have "\<dots> = js_truncate y"
    using b by (simp add: sint_sbintrunc' signed_take_bit_int_eq_self)
  finally show ?thesis .
qed

lemma map_nth_upt: "map (\<lambda>i. f (xs ! i)) [0..<length xs] = map f xs"
  by (intro nth_equalityI) simp_all

lemma decodeAudioData_mono:
  assumes "ws \<noteq> []"
  shows "decodeAudioData (Uint8Array_of_int16 ws) 24000 1 =
     Inr \<lparr>numberOfChannels = 1, frames = length ws, sampleRate = 24000,
          channelData = [map (\<lambda>w. real_of_int (sint w) / 32768) ws]\<rparr>"
proof -
  have m: "map (\<lambda>i. real_of_int (sint (ws ! i)) / 32768) [0..<length ws] = map (\<lambda>w. real_of_int (sint w) / 32768) ws"
    by (intro nth_equalityI) simp_all
  have u: "[0..<1] = [0::nat]" by simp
  have c: "createBuffer 1 (length ws) 24000 = Inr \<lparr>numberOfChannels = 1, frames = length ws, sampleRate = 24000,
          channelData = replicate 1 (replicate (length ws) 0)\<rparr>"
    using assms unfolding createBuffer_def by simp
  show ?thesis 
    using map_nth_upt[of "\<lambda>w. real_of_int (sint w) / 32768" ws]
    by (simp add: decodeAudioData_def Int16Array_of_bytes c u Let_def del: One_nat_def)
qed

lemma sint_ToInt16_wrap:
  "sint (ToInt16 y) = (js_truncate y + 32768) mod 65536 - 32768"
proof -
  have "(word_of_int (js_truncate y mod 65536) :: int16) = word_of_int (js_truncate y)"
    by (simp add: word_of_int_eq_iff take_bit_eq_mod)
  then have "sint (ToInt16 y) = sint (word_of_int (js_truncate y) :: int16)"
    unfolding ToInt16_def by simp
  also have "\<dots> = (js_truncate y + 32768) mod 65536 - 32768"
    by (simp add: sint_sbintrunc' signed_take_bit_eq_take_bit_shift take_bit_eq_mod)
  finally show ?thesis .
qed

lemma quantization_error:
  assumes "- 1 \<le> x" "x < 1"
  shows "\<bar>real_of_int (sint (ToInt16 (x * 32768))) / 32768 - x\<bar> \<le> 1 / 32768"
proof -
  let ?y = "x * 32768"
  have r: "- 32768 \<le> ?y" "?y < 32768" using assms by simp_all
  have "\<bar>real_of_int (js_truncate ?y) - ?y\<bar> < 1" by (rule truncate_error)
  then have "\<bar>real_of_int (js_truncate ?y) / 32768 - x\<bar> < 1 / 32768"
    by (simp add: abs_if field_simps split: if_splits)
  then show ?thesis using sint_ToInt16[OF r] by simp
qed

lemma wire_round_trip_eq:
  assumes "s \<noteq> []"
  shows "wire_round_trip s =
     Inr \<lparr>numberOfChannels = 1, frames = length s, sampleRate = 24000,
          channelData = [map (\<lambda>x. real_of_int (sint (ToInt16 (x * 32768))) / 32768) s]\<rparr>"
proof -
  let ?ws = "map (\<lambda>x. ToInt16 (x * 32768)) s"
  have "?ws \<noteq> []" using assms by simp
  from decodeAudioData_mono[OF this] show ?thesis
    by (simp add: wire_round_trip_def createPcmBlob_def decode_encode_base64 comp_def)
qed

section \<open>Claims about the codec\<close>

text \<open>
  Claim C1, as amended. For every non-empty sequence \<open>s\<close> of samples in \<open>[-1, 1)\<close>,
  decoding with one channel the bytes that \<open>createPcmBlob\<close> produced from \<open>s\<close>
  succeeds and gives one channel of the same length, each sample at most \<open>1/32768\<close>
  away from the corresponding sample of \<open>s\<close>. The claim as stated also covers the
  sample \<open>1\<close>, which comes back as \<open>-1\<close>, and the empty sequence, for which
  \<open>createBuffer\<close> refuses a buffer of no frames.
\<close>

theorem round_trip_within_quantization:
  assumes "s \<noteq> []" and "\<forall>x\<in>set s. - 1 \<le> x \<and> x < 1"
  shows "\<exists>buf c. wire_round_trip s = Inr buf \<and> channelData buf = [c] \<and>
           length c = length s \<and> (\<forall>i<length s. \<bar>c ! i - s ! i\<bar> \<le> 1 / 32768)"
proof -
  let ?c = "map (\<lambda>x. real_of_int (sint (ToInt16 (x * 32768))) / 32768) s"
  have "\<forall>i<length s. \<bar>?c ! i - s ! i\<bar> \<le> 1 / 32768"
  proof (intro allI impI)
    fix i assume i: "i < length s"
    then have "- 1 \<le> s ! i" "s ! i < 1" using assms(2) by (auto dest: nth_mem)
    from quantization_error[OF this] show "\<bar>?c ! i - s ! i\<bar> \<le> 1 / 32768"
      using i by (simp only: nth_map)
  qed
  then show ?thesis
    using wire_round_trip_eq[OF assms(1)] by auto
qed

theorem round_trip_within_quantization_witness:
  "[1/2, - 1/4] \<noteq> ([] :: real list) \<and>
   (- 1 \<le> (1/2 :: real) \<and> (1/2 :: real) < 1) \<and> (- 1 \<le> (- 1/4 :: real) \<and> (- 1/4 :: real) < 1) \<and>
   (\<exists>buf c. wire_round_trip [1/2, - 1/4] = Inr buf \<and> channelData buf = [c] \<and>
      length c = 2 \<and> \<bar>c ! 0 - 1/2\<bar> \<le> 1 / 32768 \<and> \<bar>c ! 1 - (- 1/4)\<bar> \<le> 1 / 32768)"
proof -
  obtain buf c where h: "wire_round_trip [1/2, - 1/4] = Inr buf" "channelData buf = [c]"
      "length c = length [1/2, - 1/4 :: real]"
      "\<forall>i<length [1/2, - 1/4 :: real]. \<bar>c ! i - [1/2, - 1/4] ! i\<bar> \<le> 1 / 32768"
    using round_trip_within_quantization[of "[1/2, - 1/4]"] by auto
  have "\<bar>c ! 0 - 1/2\<bar> \<le> 1 / 32768" "\<bar>c ! 1 - (- 1/4)\<bar> \<le> 1 / 32768"
    using h(4)[rule_format, of 0] h(4)[rule_format, of 1] by simp_all
  with h(1,2,3) show ?thesis by auto
qed

text \<open>The claim C1 as stated fails: the full-scale sample \<open>1\<close> is read back as
  \<open>-1\<close>, and the empty sequence is not read back at all.\<close>

theorem round_trip_counterexample:
  "wire_round_trip [1] =
     Inr \<lparr>numberOfChannels = 1, frames = 1, sampleRate = 24000, channelData = [[- 1]]\<rparr>
   \<and> \<not> \<bar>(- 1) - 1\<bar> \<le> (1 / 32768 :: real)
   \<and> wire_round_trip [] = Inl NotSupportedError"
proof -
  have a: "wire_round_trip [1] =
     Inr \<lparr>numberOfChannels = 1, frames = 1, sampleRate = 24000, channelData = [[- 1]]\<rparr>"
    using wire_round_trip_eq[of "[1]"] sint_ToInt16_wrap[of 32768]
    by (simp add: js_truncate_def del: of_int_sint)
  have b: "wire_round_trip [] = Inl NotSupportedError"
    by (simp add: wire_round_trip_def createPcmBlob_def decode_encode_base64
        Uint8Array_of_int16_def decodeAudioData_def Int16Array_of_buffer_def createBuffer_def)
  show ?thesis using a b by simp
qed

text \<open>
  Claim C9. For every byte sequence \<open>b\<close>, \<open>decodeBase64\<close> applied to the text that
  \<open>encodeBase64\<close> made from \<open>b\<close> succeeds and returns exactly \<open>b\<close>.
\<close>

theorem base64_round_trip: "decodeBase64 (encodeBase64 b) = Inr b"
  by (rule decode_encode_base64)

text \<open>
  Claim C10. The 16-bit integers in the blob of \<open>createPcmBlob\<close> (read back from its
  base64 text as \<open>decodeAudioData\<close> reads them) are, sample by sample, the product
  \<open>x * 32768\<close> truncated towards zero and wrapped around modulo \<open>2 ^ 16\<close> into the
  signed range. For \<open>-1 \<le> x < 1\<close> that is the truncated product itself; for \<open>x = 1\<close>
  it is \<open>-32768\<close>.
\<close>

theorem createPcmBlob_wraps:
  "\<exists>bytes ws. decodeBase64 (blob_data (createPcmBlob data)) = Inr bytes \<and>
     Int16Array_of_buffer bytes = Inr ws \<and> length ws = length data \<and>
     (\<forall>i<length data.
        sint (ws ! i) = (js_truncate (data ! i * 32768) + 32768) mod 65536 - 32768 \<and>
        (- 1 \<le> data ! i \<and> data ! i < 1 \<longrightarrow> sint (ws ! i) = js_truncate (data ! i * 32768)) \<and>
        (data ! i = 1 \<longrightarrow> sint (ws ! i) = - 32768))"
proof -
  let ?ws = "map (\<lambda>x. ToInt16 (x * 32768)) data"
  have 1: "decodeBase64 (blob_data (createPcmBlob data)) = Inr (Uint8Array_of_int16 ?ws)"
    by (simp add: createPcmBlob_def decode_encode_base64)
  have 2: "Int16Array_of_buffer (Uint8Array_of_int16 ?ws) = Inr ?ws"
    by (rule Int16Array_of_bytes)
  have 3: "\<forall>i<length data.
        sint (?ws ! i) = (js_truncate (data ! i * 32768) + 32768) mod 65536 - 32768 \<and>
        (- 1 \<le> data ! i \<and> data ! i < 1 \<longrightarrow> sint (?ws ! i) = js_truncate (data ! i * 32768)) \<and>
        (data ! i = 1 \<longrightarrow> sint (?ws ! i) = - 32768)"
  proof (intro allI impI conjI)
    fix i assume i: "i < length data"
    show "sint (?ws ! i) = (js_truncate (data ! i * 32768) + 32768) mod 65536 - 32768"
      using i by (simp add: sint_ToInt16_wrap)
    show "sint (?ws ! i) = js_truncate (data ! i * 32768)" if "- 1 \<le> data ! i \<and> data ! i < 1"
      using i that by (simp add: sint_ToInt16)
    show "sint (?ws ! i) = - 32768" if "data ! i = 1"
      using i that sint_ToInt16_wrap[of 32768] by (simp add: js_truncate_def)
  qed
  show ?thesis
    apply (intro exI[of _ "Uint8Array_of_int16 ?ws"] exI[of _ ?ws] conjI)
    apply (rule 1)
    apply (rule 2)
    apply simp
    apply (rule 3)
    done
qed

theorem createPcmBlob_wraps_witness:
  "\<exists>bytes ws. decodeBase64 (blob_data (createPcmBlob [1/2, 1])) = Inr bytes \<and>
     Int16Array_of_buffer bytes = Inr ws \<and> length ws = 2 \<and>
     (- 1 \<le> (1/2 :: real) \<and> (1/2 :: real) < 1) \<and> sint (ws ! 0) = 16384 \<and> sint (ws ! 1) = - 32768"
proof -
  obtain bytes ws where h: "decodeBase64 (blob_data (createPcmBlob [1/2, 1])) = Inr bytes"
     "Int16Array_of_buffer bytes = Inr ws" "length ws = length [1/2, 1 :: real]"
     "\<forall>i<length [1/2, 1 :: real].
        sint (ws ! i) = (js_truncate ([1/2, 1] ! i * 32768) + 32768) mod 65536 - 32768 \<and>
        (- 1 \<le> [1/2, 1 :: real] ! i \<and> [1/2, 1 :: real] ! i < 1 \<longrightarrow> sint (ws ! i) = js_truncate ([1/2, 1] ! i * 32768)) \<and>
        (([1/2, 1] ! i :: real) = 1 \<longrightarrow> sint (ws ! i) = - 32768)"
    using createPcmBlob_wraps[of "[1/2, 1]"] by blast
  from h(4) have "sint (ws ! 0) = js_truncate (1/2 * 32768)" "sint (ws ! 1) = - 32768"
    by (auto simp del: sint_sbintrunc)
  then show ?thesis using h(1,2,3) by (auto simp: js_truncate_def)
qed

section \<open>Claims about the triage service\<close>

lemma index_of_None: "index_of c xs = None \<longleftrightarrow> c \<notin> set xs"
  by (induction xs) auto

lemma index_of_append: "c \<notin> set pre \<Longrightarrow> index_of c (pre @ c # rest) = Some (length pre)"
  by (induction pre) auto

lemma index_of_less: "index_of c xs = Some i \<Longrightarrow> i < length xs"
  by (induction xs arbitrary: i) (auto split: if_splits)

lemma indexOf_absent: "indexOf s c = - 1 \<longleftrightarrow> c \<notin> set s"
  unfolding indexOf_def using index_of_None[of c s] by (auto split: option.splits)

lemma lastIndexOf_absent: "lastIndexOf s c = - 1 \<longleftrightarrow> c \<notin> set s"
proof -
  have "index_of c (rev s) = Some i \<Longrightarrow> i < length s" for i
    using index_of_less[of c "rev s" i] by simp
  then show ?thesis
    unfolding lastIndexOf_def using index_of_None[of c "rev s"]
    by (fastforce split: option.splits)
qed

lemma slice_braces:
  assumes "raw = pre @ [CHR ''{''] @ mid @ [CHR ''}''] @ post"
    and "CHR ''{'' \<notin> set pre" and "CHR ''}'' \<notin> set post"
  shows "slice raw (indexOf raw (CHR ''{'')) (lastIndexOf raw (CHR ''}'') + 1)
           = [CHR ''{''] @ mid @ [CHR ''}'']"
    and "indexOf raw (CHR ''{'') \<noteq> - 1" and "lastIndexOf raw (CHR ''}'') \<noteq> - 1"
proof -
  have i: "indexOf raw (CHR ''{'') = int (length pre)"
    unfolding indexOf_def assms(1) using index_of_append[OF assms(2)] by simp
  have "rev raw = rev post @ CHR ''}'' # (rev mid @ CHR ''{'' # rev pre)"
    unfolding assms(1) by simp
  then have "index_of (CHR ''}'') (rev raw) = Some (length post)"
    using index_of_append[of "CHR ''}''" "rev post"] assms(3) by simp
  then have l: "lastIndexOf raw (CHR ''}'') = int (length pre) + 1 + int (length mid)"
    unfolding lastIndexOf_def by (simp add: assms(1))
  show "slice raw (indexOf raw (CHR ''{'')) (lastIndexOf raw (CHR ''}'') + 1)
           = [CHR ''{''] @ mid @ [CHR ''}'']"
    unfolding i l slice_def Let_def by (simp add: assms(1) nat_add_distrib)
  show "indexOf raw (CHR ''{'') \<noteq> - 1" unfolding i by simp
  show "lastIndexOf raw (CHR ''}'') \<noteq> - 1" unfolding l by simp
qed

text \<open>
  Claim C6, as amended. When the response text is not empty and does not parse
  directly, \<open>triageMessage\<close> makes one more attempt, on the substring from the first
  \<open>{\<close> to the last \<open>}\<close>: for a text \<open>pre{mid}post\<close> with no \<open>{\<close> in \<open>pre\<close> and no \<open>}\<close>
  in \<open>post\<close> the result is the parse of \<open>{mid}\<close>, or \<open>SyntaxError\<close> when that fails too;
  for a text that lacks \<open>{\<close> or lacks \<open>}\<close> the result is the error
  \<open>Could not parse JSON response\<close>. The empty text, which the claim as stated includes,
  fails before any parsing with the error \<open>Empty response from AI engine\<close>.
\<close>

theorem triage_recovery:
  assumes "backend (build_request inp) = Inr response"
    and "response_text response = Some raw" and "raw \<noteq> []"
    and "JSON_parse (trim raw) = None"
  shows "(\<forall>pre mid post. raw = pre @ [CHR ''{''] @ mid @ [CHR ''}''] @ post \<and>
            CHR ''{'' \<notin> set pre \<and> CHR ''}'' \<notin> set post \<longrightarrow>
            snd (triageMessage JSON_parse backend inp) =
              (case JSON_parse ([CHR ''{''] @ mid @ [CHR ''}'']) of
                 Some v \<Rightarrow> Inr \<lparr>parsed = v, grounding_sources = extract_grounding inp response\<rparr>
               | None \<Rightarrow> Inl SyntaxError))
       \<and> (CHR ''{'' \<notin> set raw \<or> CHR ''}'' \<notin> set raw \<longrightarrow>
            snd (triageMessage JSON_parse backend inp) = Inl (Error ''Could not parse JSON response''))"
proof (intro conjI allI impI)
  fix pre mid post
  assume h: "raw = pre @ [CHR ''{''] @ mid @ [CHR ''}''] @ post \<and>
            CHR ''{'' \<notin> set pre \<and> CHR ''}'' \<notin> set post"
  then have "parse_response JSON_parse raw =
      (case JSON_parse ([CHR ''{''] @ mid @ [CHR ''}'']) of Some v \<Rightarrow> Inr v | None \<Rightarrow> Inl SyntaxError)"
    unfolding parse_response_def Let_def using assms(4) slice_braces[of raw pre mid post]
    by (simp split: option.splits)
  then show "snd (triageMessage JSON_parse backend inp) =
              (case JSON_parse ([CHR ''{''] @ mid @ [CHR ''}'']) of
                 Some v \<Rightarrow> Inr \<lparr>parsed = v, grounding_sources = extract_grounding inp response\<rparr>
               | None \<Rightarrow> Inl SyntaxError)"
    using assms(1,2,3) by (simp add: triageMessage_def Let_def split: option.splits)
next
  assume "CHR ''{'' \<notin> set raw \<or> CHR ''}'' \<notin> set raw"
  then have "indexOf raw (CHR ''{'') = - 1 \<or> lastIndexOf raw (CHR ''}'') = - 1"
    by (simp add: indexOf_absent lastIndexOf_absent)
  then have "parse_response JSON_parse raw = Inl (Error ''Could not parse JSON response'')"
    unfolding parse_response_def Let_def using assms(4) by auto
  then show "snd (triageMessage JSON_parse backend inp) = Inl (Error ''Could not parse JSON response'')"
    using assms(1,2,3) by (simp add: triageMessage_def Let_def)
qed

lemma trim_noise: \<open>trim ''noise{"summary":"x"}trailing'' = ''noise{"summary":"x"}trailing''\<close>
  by (simp add: trim_def is_js_whitespace_def)

lemma trim_plain: \<open>trim ''no object here'' = ''no object here''\<close>
  by (simp add: trim_def is_js_whitespace_def)

theorem triage_recovery_witness:
  \<open>snd (triageMessage (parse_only ''{"summary":"x"}'' ''x'')
         (answering ''noise{"summary":"x"}trailing'' None) csv_crash)
     = Inr \<lparr>parsed = ''x'', grounding_sources = []\<rparr>
   \<and> snd (triageMessage (parse_only ''{"summary":"x"}'' ''x'')
         (answering ''no object here'' None) csv_crash)
     = Inl (Error ''Could not parse JSON response'')\<close>
proof -
  let ?P = \<open>parse_only ''{"summary":"x"}'' ''x''\<close>
  let ?raw = \<open>''noise{"summary":"x"}trailing''\<close>
  let ?resp = "\<lparr>response_text = Some ?raw, groundingChunks = None\<rparr>"
  have h1: "answering ?raw None (build_request csv_crash) = Inr ?resp"
    by (simp add: answering_def)
  have h2: "response_text ?resp = Some ?raw" by simp
  have h3: "?raw \<noteq> []" by simp
  have h4: "?P (trim ?raw) = None" unfolding trim_noise by (simp add: parse_only_def)
  have s: \<open>?raw = ''noise'' @ [CHR ''{''] @ ''"summary":"x"'' @ [CHR ''}''] @ ''trailing'' \<and>
            CHR ''{'' \<notin> set ''noise'' \<and> CHR ''}'' \<notin> set ''trailing''\<close> by simp
  have p: \<open>?P ([CHR ''{''] @ ''"summary":"x"'' @ [CHR ''}'']) = Some ''x''\<close>
    by (simp add: parse_only_def)
  have g: "extract_grounding csv_crash ?resp = []"
    by (simp add: extract_grounding_def csv_crash_def)
  have a: \<open>snd (triageMessage ?P (answering ?raw None) csv_crash)
     = Inr \<lparr>parsed = ''x'', grounding_sources = []\<rparr>\<close>
    using triage_recovery[where backend = "answering ?raw None" and inp = csv_crash and JSON_parse = ?P,
        OF h1 h2 h3 h4, THEN conjunct1, rule_format, OF s]
    unfolding p g by simp
  let ?raw2 = "''no object here''"
  let ?resp2 = "\<lparr>response_text = Some ?raw2, groundingChunks = None\<rparr>"
  have k1: "answering ?raw2 None (build_request csv_crash) = Inr ?resp2"
    by (simp add: answering_def)
  have k2: "response_text ?resp2 = Some ?raw2" by simp
  have k3: "?raw2 \<noteq> []" by simp
  have k4: "?P (trim ?raw2) = None" unfolding trim_plain by (simp add: parse_only_def)
  have k5: "CHR ''{'' \<notin> set ?raw2 \<or> CHR ''}'' \<notin> set ?raw2" by simp
  have b: \<open>snd (triageMessage ?P (answering ?raw2 None) csv_crash)
     = Inl (Error ''Could not parse JSON response'')\<close>
    using triage_recovery[where backend = "answering ?raw2 None" and inp = csv_crash and JSON_parse = ?P,
        OF k1 k2 k3 k4, THEN conjunct2, rule_format, OF k5] .
  show ?thesis using a b by (rule conjI)
qed

text \<open>The claim C6 as stated fails at the empty text: it has no pair of braces and
  the failure is not a parse error.\<close>

theorem triage_recovery_counterexample:
  "CHR ''{'' \<notin> set ('''' :: string) \<and>
   snd (triageMessage (parse_only ''{}'' ()) (answering '''' None) csv_crash)
     = Inl (Error ''Empty response from AI engine'') \<and>
   Error ''Empty response from AI engine'' \<noteq> Error ''Could not parse JSON response'' \<and>
   Error ''Empty response from AI engine'' \<noteq> SyntaxError"
  by (simp add: triageMessage_def answering_def)

text \<open>
  Claim C7. The request \<open>triageMessage\<close> sends carries the input with
  \<open>recent_activity_summary\<close> replaced by \<open>no recent changes\<close> whenever the supplied
  summary is empty, and with the customer message, the account tier and the search flag
  unchanged.
\<close>

theorem request_normalizes_summary:
  "(recent_activity_summary inp = [] \<longrightarrow>
      recent_activity_summary (contents_input (fst (triageMessage JSON_parse backend inp)))
        = ''no recent changes'')
   \<and> customer_message (contents_input (fst (triageMessage JSON_parse backend inp)))
        = customer_message inp
   \<and> account_tier (contents_input (fst (triageMessage JSON_parse backend inp)))
        = account_tier inp
   \<and> use_search (contents_input (fst (triageMessage JSON_parse backend inp)))
        = use_search inp"
  by (simp add: triageMessage_def build_request_def processedInput_def trim_def Let_def)

theorem request_normalizes_summary_witness:
  "recent_activity_summary csv_crash = [] \<and>
   recent_activity_summary
     (contents_input (fst (triageMessage (parse_only ''{}'' ()) (answering ''{}'' None) csv_crash)))
     = ''no recent changes'' \<and>
   customer_message
     (contents_input (fst (triageMessage (parse_only ''{}'' ()) (answering ''{}'' None) csv_crash)))
     = ''App crashes on CSV upload'' \<and>
   account_tier
     (contents_input (fst (triageMessage (parse_only ''{}'' ()) (answering ''{}'' None) csv_crash)))
     = Pro \<and>
   use_search
     (contents_input (fst (triageMessage (parse_only ''{}'' ()) (answering ''{}'' None) csv_crash)))
     = Some False"
  using request_normalizes_summary[of csv_crash "parse_only ''{}'' ()" "answering ''{}'' None"]
  by (simp add: csv_crash_def)

lemma concat_nonempty_web:
  "concat (map (\<lambda>chunk. case chunk of None \<Rightarrow> [] | Some web \<Rightarrow> [f web]) chunks) \<noteq> []
   \<Longrightarrow> \<exists>web. Some web \<in> set chunks"
  by (induction chunks) (auto split: option.splits)

text \<open>
  Claim C8. In a result of \<open>triageMessage\<close> the list of grounding sources is not empty
  only when the input's search flag was set and the response carried grounding chunks
  with a web citation; when the flag is not set the list is empty.
\<close>

theorem grounding_only_when_searched:
  assumes "snd (triageMessage JSON_parse backend inp) = Inr result"
  shows "(grounding_sources result \<noteq> [] \<longrightarrow>
            use_search inp = Some True \<and>
            (\<exists>response chunks web. backend (build_request inp) = Inr response \<and>
                groundingChunks response = Some chunks \<and> Some web \<in> set chunks))
       \<and> (use_search inp \<noteq> Some True \<longrightarrow> grounding_sources result = [])"
proof -
  from assms obtain response where r: "backend (build_request inp) = Inr response"
      and g: "grounding_sources result = extract_grounding inp response"
    by (auto simp: triageMessage_def Let_def split: sum.splits option.splits if_splits)
  have 1: "use_search inp \<noteq> Some True \<longrightarrow> grounding_sources result = []"
    by (simp add: g extract_grounding_def)
  have 2: "grounding_sources result \<noteq> [] \<longrightarrow>
            use_search inp = Some True \<and>
            (\<exists>response chunks web. backend (build_request inp) = Inr response \<and>
                groundingChunks response = Some chunks \<and> Some web \<in> set chunks)"
  proof
    assume ne: "grounding_sources result \<noteq> []"
    then have s: "use_search inp = Some True" using 1 by blast
    from ne obtain chunks where c: "groundingChunks response = Some chunks"
      unfolding g extract_grounding_def by (auto split: if_splits option.splits)
    from ne have "\<exists>web. Some web \<in> set chunks"
      unfolding g extract_grounding_def using s c
      by (auto dest!: concat_nonempty_web split: option.splits)
    with s r c show "use_search inp = Some True \<and>
            (\<exists>response chunks web. backend (build_request inp) = Inr response \<and>
                groundingChunks response = Some chunks \<and> Some web \<in> set chunks)" by blast
  qed
  show ?thesis using 1 2 by blast
qed

theorem grounding_only_when_searched_witness:
  "snd (triageMessage (parse_only ''{}'' ())
          (answering ''{}'' (Some [Some \<lparr>web_title = None, web_uri = ''https://example.com/kb''\<rparr>]))
          (csv_crash\<lparr>use_search := Some True\<rparr>))
     = Inr \<lparr>parsed = (), grounding_sources = [\<lparr>title = ''Source'', uri = ''https://example.com/kb''\<rparr>]\<rparr>
   \<and> use_search (csv_crash\<lparr>use_search := Some True\<rparr>) = Some True
   \<and> snd (triageMessage (parse_only ''{}'' ())
          (answering ''{}'' (Some [Some \<lparr>web_title = None, web_uri = ''https://example.com/kb''\<rparr>]))
          csv_crash)
     = Inr \<lparr>parsed = (), grounding_sources = []\<rparr>
   \<and> use_search csv_crash \<noteq> Some True"
proof -
  let ?B = "answering ''{}'' (Some [Some \<lparr>web_title = None, web_uri = ''https://example.com/kb''\<rparr>])"
  let ?P = "parse_only ''{}'' ()"
  let ?r1 = "\<lparr>parsed = (), grounding_sources = [\<lparr>title = ''Source'', uri = ''https://example.com/kb''\<rparr>]\<rparr>"
  have a: "snd (triageMessage ?P ?B (csv_crash\<lparr>use_search := Some True\<rparr>)) = Inr ?r1"
    by (simp add: triageMessage_def answering_def parse_response_def parse_only_def trim_def
        is_js_whitespace_def extract_grounding_def csv_crash_def Let_def)
  have b: "\<exists>r. snd (triageMessage ?P ?B csv_crash) = Inr r"
    by (simp add: triageMessage_def answering_def parse_response_def parse_only_def trim_def
        is_js_whitespace_def csv_crash_def Let_def)
  then obtain r where r: "snd (triageMessage ?P ?B csv_crash) = Inr r" by blast
  have n: "use_search csv_crash \<noteq> Some True" by (simp add: csv_crash_def)
  from grounding_only_when_searched[OF r] n have "grounding_sources r = []" by blast
  moreover have "parsed r = ()" by simp
  ultimately have "r = \<lparr>parsed = (), grounding_sources = []\<rparr>" by (cases r) simp
  with r have c: "snd (triageMessage ?P ?B csv_crash) = Inr \<lparr>parsed = (), grounding_sources = []\<rparr>" by simp
  from grounding_only_when_searched[OF a] have d: "use_search (csv_crash\<lparr>use_search := Some True\<rparr>) = Some True"
    by simp
  show ?thesis using a c d n by simp
qed

section \<open>Claims about the live session\<close>

lemma duration_nonneg: "0 \<le> duration b"
  by (simp add: duration_def)

lemma scheduleChunk_cases:
  assumes "scheduleChunk t b64 s = (s', es, err)"
  shows "(err \<noteq> None \<and> es = [] \<and> nextStartTimeRef s' = max (nextStartTimeRef s) t)
       \<or> (err = None \<and> (\<exists>source d. es = [SourceStart source (max (nextStartTimeRef s) t) d] \<and>
              0 \<le> d \<and> nextStartTimeRef s' = max (nextStartTimeRef s) t + d))"
  using assms unfolding scheduleChunk_def Let_def
  by (auto split: sum.splits simp: duration_nonneg)

lemma onmessage_cases:
  assumes "onmessage t msg s = (s', es, err)" and "\<not> interrupted msg"
  shows "(starts es = [] \<and>
            (nextStartTimeRef s' = nextStartTimeRef s \<or>
             (inlineData msg \<noteq> None \<and> inlineData msg \<noteq> Some [] \<and>
              nextStartTimeRef s' = max (nextStartTimeRef s) t)))
       \<or> (inlineData msg \<noteq> None \<and> inlineData msg \<noteq> Some [] \<and>
           (\<exists>d. starts es = [(max (nextStartTimeRef s) t, d)] \<and> 0 \<le> d \<and>
              nextStartTimeRef s' = max (nextStartTimeRef s) t + d))"
proof -
  define s1 where "s1 = (case inputTranscription msg of
                  Some t \<Rightarrow> s\<lparr>liveTranscription :=
                                liveTranscription s @ [\<lparr>entry_text = t, isUser = True\<rparr>]\<rparr>
                | None \<Rightarrow> s)"
  define s2 where "s2 = (case outputTranscription msg of
                  Some t \<Rightarrow> s1\<lparr>liveTranscription :=
                                 liveTranscription s1 @ [\<lparr>entry_text = t, isUser = False\<rparr>]\<rparr>
                | None \<Rightarrow> s1)"
  have n: "nextStartTimeRef s2 = nextStartTimeRef s"
    unfolding s2_def s1_def by (simp split: option.splits)
  define b where "b = (case inlineData msg of Some d \<Rightarrow> d | None \<Rightarrow> [])"
  have bne: "b \<noteq> [] \<longleftrightarrow> inlineData msg \<noteq> None \<and> inlineData msg \<noteq> Some []"
    unfolding b_def by (simp split: option.splits)
  show ?thesis
  proof (cases "b \<noteq> [] \<and> audioContextsRef s2 \<noteq> None")
    case True
    obtain s3 e3 err3 where sc: "scheduleChunk t b s2 = (s3, e3, err3)"
      by (cases "scheduleChunk t b s2") auto
    with True assms have r: "s' = s3" "es = e3"
      unfolding onmessage_def Let_def s1_def[symmetric] s2_def[symmetric] b_def[symmetric]
      by (auto split: option.splits)
    from scheduleChunk_cases[OF sc] show ?thesis
      unfolding r n using True bne by (auto simp: starts_def)
  next
    case False
    with assms have "s' = s2" "es = []"
      unfolding onmessage_def Let_def s1_def[symmetric] s2_def[symmetric] b_def[symmetric]
      by (auto split: option.splits if_splits)
    then show ?thesis using n by (simp add: starts_def)
  qed
qed

lemma starts_append: "starts (xs @ ys) = starts xs @ starts ys"
  by (simp add: starts_def)

lemma run_Message:
  "onmessage t msg s = (s1, e1, err) \<Longrightarrow>
   snd (run (Message t msg # evs) s) = e1 @ snd (run evs s1)"
  by (simp add: case_prod_beta)

lemma onended_cursor: "nextStartTimeRef (onended source s) = nextStartTimeRef s"
  by (simp add: onended_def)

lemma starts_after_cursor:
  "no_interrupt evs \<Longrightarrow>
   sorted (map fst (starts (snd (run evs s)))) \<and>
   (\<forall>p\<in>set (starts (snd (run evs s))). nextStartTimeRef s \<le> fst p)"
proof (induction evs arbitrary: s)
  case Nil
  then show ?case by (simp add: starts_def)
next
  case (Cons ev evs)
  show ?case
  proof (cases ev)
    case (Ended source)
    with Cons.prems Cons.IH[of "onended source s"] show ?thesis by (simp add: onended_cursor)
  next
    case (Message t msg)
    obtain s1 e1 err where om: "onmessage t msg s = (s1, e1, err)"
      by (cases "onmessage t msg s") auto
    from Cons.prems Message have ni: "\<not> interrupted msg" "no_interrupt evs" by simp_all
    note IH = Cons.IH[OF ni(2), of s1]
    have r: "starts (snd (run (ev # evs) s)) = starts e1 @ starts (snd (run evs s1))"
      unfolding Message run_Message[OF om] by (rule starts_append)
    from onmessage_cases[OF om ni(1)] show ?thesis
    proof (elim disjE conjE exE)
      assume "starts e1 = []" "nextStartTimeRef s1 = nextStartTimeRef s"
      with IH r show ?thesis by simp
    next
      assume "starts e1 = []" "nextStartTimeRef s1 = max (nextStartTimeRef s) t"
      with IH r show ?thesis by fastforce
    next
      fix d assume "starts e1 = [(max (nextStartTimeRef s) t, d)]" "0 \<le> d"
        "nextStartTimeRef s1 = max (nextStartTimeRef s) t + d"
      with IH r show ?thesis by fastforce
    qed
  qed
qed

lemma scheduled_starts: "map snd (scheduled evs s) = starts (snd (run evs s))"
proof (induction evs arbitrary: s)
  case Nil
  then show ?case by (simp add: starts_def)
next
  case (Cons ev evs)
  show ?case
  proof (cases ev)
    case (Ended source)
    with Cons.IH[of "onended source s"] show ?thesis by simp
  next
    case (Message t msg)
    obtain s1 e1 err where om: "onmessage t msg s = (s1, e1, err)"
      by (cases "onmessage t msg s") auto
    have "map snd (map (\<lambda>(when, dur). (t, when, dur)) (starts e1)) = starts e1"
      by (induction "starts e1") (auto simp: comp_def case_prod_beta)
    with Cons.IH[of s1] show ?thesis
      unfolding Message run_Message[OF om] starts_append by (simp add: om)
  qed
qed

lemma scheduled_times: "p \<in> set (scheduled evs s) \<Longrightarrow> fst p \<in> set (message_times evs)"
proof (induction evs arbitrary: s)
  case Nil
  then show ?case by simp
next
  case (Cons ev evs)
  show ?case
  proof (cases ev)
    case (Ended source)
    with Cons show ?thesis by simp
  next
    case (Message t msg)
    obtain s1 e1 err where om: "onmessage t msg s = (s1, e1, err)"
      by (cases "onmessage t msg s") auto
    from Cons.prems have "fst p = t \<or> p \<in> set (scheduled evs s1)"
      unfolding Message by (auto simp: om)
    with Cons.IH[of s1] show ?thesis unfolding Message by auto
  qed
qed

lemma anchored_clamp:
  assumes "anchored (max c t) entries" and "\<forall>p\<in>set entries. t \<le> fst p"
  shows "anchored c entries"
proof (cases entries)
  case Nil
  then show ?thesis by simp
next
  case (Cons p rest)
  obtain t' w d where p: "p = (t', w, d)" by (cases p)
  from assms(2) Cons p have "t \<le> t'" by simp
  then have "max (max c t) t' = max c t'" by simp
  with assms(1) show ?thesis unfolding Cons p by auto
qed

lemma scheduled_anchored:
  "no_interrupt evs \<Longrightarrow> clock_monotone evs \<Longrightarrow>
   anchored (nextStartTimeRef s) (scheduled evs s)"
proof (induction evs arbitrary: s)
  case Nil
  then show ?case by simp
next
  case (Cons ev evs)
  show ?case
  proof (cases ev)
    case (Ended source)
    with Cons.prems Cons.IH[of "onended source s"] show ?thesis
      by (simp add: onended_cursor clock_monotone_def)
  next
    case (Message t msg)
    obtain s1 e1 err where om: "onmessage t msg s = (s1, e1, err)"
      by (cases "onmessage t msg s") auto
    from Cons.prems Message have ni: "\<not> interrupted msg" "no_interrupt evs" by simp_all
    from Cons.prems(2) Message have cm: "clock_monotone evs"
      and later: "\<forall>t'\<in>set (message_times evs). t \<le> t'"
      by (simp_all add: clock_monotone_def)
    note IH = Cons.IH[OF ni(2) cm, of s1]
    have r: "scheduled (ev # evs) s =
        map (\<lambda>(when, dur). (t, when, dur)) (starts e1) @ scheduled evs s1"
      unfolding Message by (simp add: om)
    from onmessage_cases[OF om ni(1)] show ?thesis
    proof (elim disjE conjE exE)
      assume "starts e1 = []" "nextStartTimeRef s1 = nextStartTimeRef s"
      with IH r show ?thesis by simp
    next
      assume e: "starts e1 = []" "nextStartTimeRef s1 = max (nextStartTimeRef s) t"
      have "\<forall>p\<in>set (scheduled evs s1). t \<le> fst p"
        using later scheduled_times[of _ evs s1] by blast
      moreover from IH e(2) have "anchored (max (nextStartTimeRef s) t) (scheduled evs s1)"
        by simp
      ultimately have "anchored (nextStartTimeRef s) (scheduled evs s1)"
        by (rule anchored_clamp[rotated])
      with e(1) r show ?thesis by simp
    next
      fix d assume "starts e1 = [(max (nextStartTimeRef s) t, d)]"
        "nextStartTimeRef s1 = max (nextStartTimeRef s) t + d"
      with IH r show ?thesis by simp
    qed
  qed
qed

lemma anchored_pair:
  "anchored c entries \<Longrightarrow> Suc k < length entries \<Longrightarrow>
   (case (entries ! k, entries ! Suc k) of
      ((t1, when1, dur1), (t2, when2, dur2)) \<Rightarrow>
        when2 = max (when1 + dur1) t2 \<and> (t2 \<le> when1 + dur1 \<longrightarrow> when2 = when1 + dur1))"
proof (induction entries arbitrary: c k)
  case Nil
  then show ?case by simp
next
  case (Cons p rest)
  obtain t1 w1 d1 where p: "p = (t1, w1, d1)" by (cases p)
  from Cons.prems(2) obtain q rest' where rest: "rest = q # rest'" by (cases rest) auto
  obtain t2 w2 d2 where q: "q = (t2, w2, d2)" by (cases q)
  from Cons.prems(1) have a: "anchored (w1 + d1) rest" unfolding p by auto
  show ?case
  proof (cases k)
    case 0
    from a show ?thesis unfolding 0 p rest q by simp
  next
    case (Suc j)
    with Cons.prems(2) have "Suc j < length rest" by simp
    from Cons.IH[OF a this] show ?thesis unfolding Suc by simp
  qed
qed

text \<open>
  Claim C2. A message without the interruption flag that schedules a buffer starts it at
  the maximum of the cursor and the device time and leaves the cursor at that start plus
  the buffer's duration. Over any sequence of events of a session in which no message
  carries the flag, the start times given to the buffers, in scheduling order, are
  non-decreasing; and, the device clock not running backwards, each buffer starts at the
  later of the end of the buffer before it (previous start plus previous duration) and
  the time its chunk is handled, so that a chunk handled before the previously scheduled
  audio has finished starts exactly at the previous start plus the previous duration. The
  first buffer starts at the later of the cursor and its handling time. Times are reals;
  a message is handled to its end before the next event.
\<close>

theorem starts_monotone:
  assumes "no_interrupt evs"
  shows "map snd (scheduled evs s) = starts (snd (run evs s))
     \<and> sorted (map fst (starts (snd (run evs s))))
     \<and> (\<forall>t msg s0 s1 es err.
           \<not> interrupted msg \<and> onmessage t msg s0 = (s1, es, err) \<and> starts es \<noteq> [] \<longrightarrow>
           (\<exists>dur. starts es = [(max (nextStartTimeRef s0) t, dur)] \<and> 0 \<le> dur \<and>
                  nextStartTimeRef s1 = max (nextStartTimeRef s0) t + dur))
     \<and> (clock_monotone evs \<longrightarrow>
           anchored (nextStartTimeRef s) (scheduled evs s) \<and>
           (\<forall>k. Suc k < length (scheduled evs s) \<longrightarrow>
              (case (scheduled evs s ! k, scheduled evs s ! Suc k) of
                 ((t1, when1, dur1), (t2, when2, dur2)) \<Rightarrow>
                   when2 = max (when1 + dur1) t2 \<and>
                   (t2 \<le> when1 + dur1 \<longrightarrow> when2 = when1 + dur1))))"
proof (intro conjI allI impI)
  show "map snd (scheduled evs s) = starts (snd (run evs s))" by (rule scheduled_starts)
  show "sorted (map fst (starts (snd (run evs s))))"
    using starts_after_cursor[OF assms, of s] by blast
next
  fix t msg s0 s1 es err
  assume h: "\<not> interrupted msg \<and> onmessage t msg s0 = (s1, es, err) \<and> starts es \<noteq> []"
  then have om: "onmessage t msg s0 = (s1, es, err)" and ni: "\<not> interrupted msg" by simp_all
  from onmessage_cases[OF om ni] h
  show "\<exists>dur. starts es = [(max (nextStartTimeRef s0) t, dur)] \<and> 0 \<le> dur \<and>
                  nextStartTimeRef s1 = max (nextStartTimeRef s0) t + dur" by auto
next
  assume cm: "clock_monotone evs"
  show "anchored (nextStartTimeRef s) (scheduled evs s)"
    by (rule scheduled_anchored[OF assms cm])
next
  fix k
  assume cm: "clock_monotone evs" and k: "Suc k < length (scheduled evs s)"
  show "case (scheduled evs s ! k, scheduled evs s ! Suc k) of
          ((t1, when1, dur1), (t2, when2, dur2)) \<Rightarrow>
            when2 = max (when1 + dur1) t2 \<and> (t2 \<le> when1 + dur1 \<longrightarrow> when2 = when1 + dur1)"
    by (rule anchored_pair[OF scheduled_anchored[OF assms cm] k])
qed

lemma atob_two_frames: "decodeBase64 ''AAAAAA=='' = Inr [0, 0, 0, 0]"
  by (simp add: decodeBase64_def atob_def is_ascii_whitespace_def strip_padding_def
      b64index_def base64_alphabet_def Let_def)

lemma decode_two_frames:
  "decodeAudioData [0, 0, 0, 0] 24000 1 =
     Inr \<lparr>numberOfChannels = 1, frames = 2, sampleRate = 24000, channelData = [[0, 0]]\<rparr>"
  by (simp add: decodeAudioData_def Int16Array_of_buffer_def createBuffer_def Let_def
      upt_conv_Cons)

lemma scheduleChunk_two_frames:
  "scheduleChunk t ''AAAAAA=='' s =
     (s\<lparr>sourcesCreated := Suc (sourcesCreated s),
        nextStartTimeRef := max (nextStartTimeRef s) t + 1 / 12000,
        activeSourcesRef :=
          (if sourcesCreated s \<in> set (activeSourcesRef s) then activeSourcesRef s
           else activeSourcesRef s @ [sourcesCreated s])\<rparr>,
      [SourceStart (sourcesCreated s) (max (nextStartTimeRef s) t) (1 / 12000)], None)"
  by (simp add: scheduleChunk_def atob_two_frames decode_two_frames duration_def Let_def
      del: One_nat_def)

lemma onmessage_two_frames:
  "audioContextsRef s \<noteq> None \<Longrightarrow> onmessage t two_frames s = scheduleChunk t ''AAAAAA=='' s"
  unfolding scheduleChunk_two_frames
  by (simp add: onmessage_def two_frames_def scheduleChunk_two_frames Let_def)

theorem starts_monotone_witness:
  "no_interrupt [Message 1 two_frames, Message (24001 / 24000) two_frames, Ended 0,
                 Message 2 two_frames]
   \<and> clock_monotone [Message 1 two_frames, Message (24001 / 24000) two_frames, Ended 0,
                     Message 2 two_frames]
   \<and> scheduled [Message 1 two_frames, Message (24001 / 24000) two_frames, Ended 0,
                 Message 2 two_frames] voice_session
        = [(1, 1, 1 / 12000), (24001 / 24000, 12001 / 12000, 1 / 12000), (2, 2, 1 / 12000)]
   \<and> starts (snd (run [Message 1 two_frames, Message (24001 / 24000) two_frames, Ended 0,
                        Message 2 two_frames] voice_session))
        = [(1, 1 / 12000), (12001 / 12000, 1 / 12000), (2, 1 / 12000)]
   \<and> sorted (map fst (starts (snd (run [Message 1 two_frames,
          Message (24001 / 24000) two_frames, Ended 0, Message 2 two_frames] voice_session))))
   \<and> anchored 0 (scheduled [Message 1 two_frames, Message (24001 / 24000) two_frames, Ended 0,
                 Message 2 two_frames] voice_session)
   \<and> (24001 / 24000 :: real) \<le> 1 + 1 / 12000
   \<and> (12001 / 12000 :: real) = 1 + 1 / 12000
   \<and> \<not> interrupted two_frames
   \<and> starts (fst (snd (onmessage 1 two_frames voice_session))) = [(1, 1 / 12000)]
   \<and> nextStartTimeRef (fst (onmessage 1 two_frames voice_session)) = 1 + 1 / 12000"
proof -
  let ?evs = "[Message 1 two_frames, Message (24001 / 24000) two_frames, Ended 0,
               Message 2 two_frames]"
  have ni: "no_interrupt ?evs" by (simp add: two_frames_def)
  have cm: "clock_monotone ?evs" by (simp add: clock_monotone_def)
  have c: "audioContextsRef voice_session \<noteq> None" "nextStartTimeRef voice_session = 0"
    by (simp_all add: voice_session_def)
  have sc: "scheduled ?evs voice_session
        = [(1, 1, 1 / 12000), (24001 / 24000, 12001 / 12000, 1 / 12000), (2, 2, 1 / 12000)]"
    using c by (simp add: onmessage_two_frames scheduleChunk_two_frames onended_def starts_def)
  note th = starts_monotone[OF ni, of voice_session]
  note th1 = th[THEN conjunct1]
  note th2 = th[THEN conjunct2, THEN conjunct1]
  note th3 = th[THEN conjunct2, THEN conjunct2, THEN conjunct1]
  note th4 = th[THEN conjunct2, THEN conjunct2, THEN conjunct2, rule_format, OF cm]
  have st: "starts (snd (run ?evs voice_session))
        = [(1, 1 / 12000), (12001 / 12000, 1 / 12000), (2, 1 / 12000)]"
    unfolding th1[symmetric] sc by simp
  have so: "sorted (map fst (starts (snd (run ?evs voice_session))))" by (rule th2)
  have an: "anchored 0 (scheduled ?evs voice_session)"
    using th4[THEN conjunct1] unfolding c(2) .
  have nf: "\<not> interrupted two_frames" by (simp add: two_frames_def)
  obtain s1 es err where om: "onmessage 1 two_frames voice_session = (s1, es, err)"
    by (cases "onmessage 1 two_frames voice_session") auto
  have es: "starts es = [(1, 1 / 12000)]"
    using om c by (auto simp: onmessage_two_frames scheduleChunk_two_frames starts_def)
  then have ne: "starts es \<noteq> []" by simp
  from th3[rule_format, of two_frames 1 voice_session s1 es err] nf om ne obtain dur where
    d: "starts es = [(max (nextStartTimeRef voice_session) 1, dur)]"
       "nextStartTimeRef s1 = max (nextStartTimeRef voice_session) 1 + dur"
    by blast
  from d es c(2) have cur: "nextStartTimeRef s1 = 1 + 1 / 12000" by simp
  have p: "(24001 / 24000 :: real) \<le> 1 + 1 / 12000" "(12001 / 12000 :: real) = 1 + 1 / 12000"
    by simp_all
  have f: "starts (fst (snd (onmessage 1 two_frames voice_session))) = [(1, 1 / 12000)]"
    unfolding om using es by simp
  have g: "nextStartTimeRef (fst (onmessage 1 two_frames voice_session)) = 1 + 1 / 12000"
    unfolding om using cur by simp
  show ?thesis
    by (intro conjI ni cm sc st so an p nf f g)
qed

text \<open>
  Claim C3. For every state, the interruption handler stops exactly the sources of the
  active set (none when it is empty), leaves the set empty and the cursor at zero, so
  that a chunk scheduled next at a device time \<open>t \<ge> 0\<close> starts at \<open>t\<close>; and a message
  with the interruption flag whose handling reaches that branch ends in such a state,
  every source active before having been stopped.
\<close>

theorem interrupt_clears_state:
  "activeSourcesRef (fst (interrupt s)) = []
   \<and> nextStartTimeRef (fst (interrupt s)) = 0
   \<and> snd (interrupt s) = map SourceStop (activeSourcesRef s)
   \<and> (\<forall>t b64 s' es. 0 \<le> t \<and> scheduleChunk t b64 (fst (interrupt s)) = (s', es, None) \<longrightarrow>
         (\<exists>source d. es = [SourceStart source t d]))
   \<and> (\<forall>t msg s' es.
         interrupted msg \<and> onmessage t msg s = (s', es, None) \<and>
         (inlineData msg = None \<or> inlineData msg = Some [] \<or> audioContextsRef s \<noteq> None) \<longrightarrow>
         activeSourcesRef s' = [] \<and> nextStartTimeRef s' = 0 \<and>
         (\<forall>source\<in>set (activeSourcesRef s). SourceStop source \<in> set es))"
proof (intro conjI allI impI)
  show "activeSourcesRef (fst (interrupt s)) = []" by (simp add: interrupt_def)
  show "nextStartTimeRef (fst (interrupt s)) = 0" by (simp add: interrupt_def)
  show "snd (interrupt s) = map SourceStop (activeSourcesRef s)" by (simp add: interrupt_def)
next
  fix t :: real and b64 s' es
  assume h: "0 \<le> t \<and> scheduleChunk t b64 (fst (interrupt s)) = (s', es, None)"
  then have "max (nextStartTimeRef (fst (interrupt s))) t = t" by (simp add: interrupt_def)
  with scheduleChunk_cases[of t b64 "fst (interrupt s)" s' es None] h
  show "\<exists>source d. es = [SourceStart source t d]" by auto
next
  fix t msg s' es
  assume h: "interrupted msg \<and> onmessage t msg s = (s', es, None) \<and>
         (inlineData msg = None \<or> inlineData msg = Some [] \<or> audioContextsRef s \<noteq> None)"
  define s1 where "s1 = (case inputTranscription msg of
                  Some t \<Rightarrow> s\<lparr>liveTranscription :=
                                liveTranscription s @ [\<lparr>entry_text = t, isUser = True\<rparr>]\<rparr>
                | None \<Rightarrow> s)"
  define s2 where "s2 = (case outputTranscription msg of
                  Some t \<Rightarrow> s1\<lparr>liveTranscription :=
                                 liveTranscription s1 @ [\<lparr>entry_text = t, isUser = False\<rparr>]\<rparr>
                | None \<Rightarrow> s1)"
  have n: "activeSourcesRef s2 = activeSourcesRef s" "audioContextsRef s2 = audioContextsRef s"
    unfolding s2_def s1_def by (simp_all split: option.splits)
  define b where "b = (case inlineData msg of Some d \<Rightarrow> d | None \<Rightarrow> [])"
  have bne: "b \<noteq> [] \<longleftrightarrow> inlineData msg \<noteq> None \<and> inlineData msg \<noteq> Some []"
    unfolding b_def by (simp split: option.splits)
  obtain s3 e3 err3 where sc:
    "(if b \<noteq> [] then scheduleChunk t b s2 else (s2, [], None)) = (s3, e3, err3)"
    by (cases "if b \<noteq> [] then scheduleChunk t b s2 else (s2, [], None)") auto
  have sub: "set (activeSourcesRef s) \<subseteq> set (activeSourcesRef s3)"
    using sc n(1) unfolding scheduleChunk_def Let_def
    by (auto split: if_splits sum.splits)
  from h bne n(2) have "\<not> (b \<noteq> [] \<and> audioContextsRef s2 = None)" by auto
  with h sc have r: "err3 = None" "s' = fst (interrupt s3)" "es = e3 @ snd (interrupt s3)"
    unfolding onmessage_def Let_def s1_def[symmetric] s2_def[symmetric] b_def[symmetric]
    by (auto split: option.splits prod.splits if_splits)
  show "activeSourcesRef s' = []" unfolding r by (simp add: interrupt_def)
  show "nextStartTimeRef s' = 0" unfolding r by (simp add: interrupt_def)
  show "\<forall>source\<in>set (activeSourcesRef s). SourceStop source \<in> set es"
    unfolding r using sub by (auto simp: interrupt_def)
qed

theorem interrupt_clears_state_witness:
  "snd (interrupt (voice_session\<lparr>nextStartTimeRef := 15 / 2, activeSourcesRef := [3, 5]\<rparr>))
     = [SourceStop 3, SourceStop 5]
   \<and> activeSourcesRef (fst (interrupt (voice_session\<lparr>nextStartTimeRef := 15 / 2, activeSourcesRef := [3, 5]\<rparr>))) = []
   \<and> snd (onmessage 2 barge_in (voice_session\<lparr>nextStartTimeRef := 15 / 2, activeSourcesRef := [3, 5]\<rparr>))
     = ([SourceStop 3, SourceStop 5], None)
   \<and> (0 :: real) \<le> 2
   \<and> snd (scheduleChunk 2 ''AAAAAA==''
        (fst (interrupt (voice_session\<lparr>nextStartTimeRef := 15 / 2, activeSourcesRef := [3, 5]\<rparr>))))
     = ([SourceStart 0 2 (1 / 12000)], None)"
proof -
  let ?s = "voice_session\<lparr>nextStartTimeRef := 15 / 2, activeSourcesRef := [3, 5]\<rparr>"
  note th = interrupt_clears_state[of ?s]
  from th have a: "snd (interrupt ?s) = [SourceStop 3, SourceStop 5]" by simp
  from th have b: "activeSourcesRef (fst (interrupt ?s)) = []" by blast
  from th have n: "nextStartTimeRef (fst (interrupt ?s)) = 0" by blast
  have c: "snd (scheduleChunk 2 ''AAAAAA=='' (fst (interrupt ?s))) = ([SourceStart 0 2 (1 / 12000)], None)"
    unfolding scheduleChunk_two_frames n by (simp add: interrupt_def voice_session_def)
  have d: "snd (onmessage 2 barge_in ?s) = ([SourceStop 3, SourceStop 5], None)"
    by (simp add: onmessage_def barge_in_def interrupt_def Let_def)
  show ?thesis using a b c d by simp
qed

lemma stop_effects:
  "snd (stopLiveTriage s) =
     (case streamRef s of Some tracks \<Rightarrow> map TrackStop tracks | None \<Rightarrow> [])
     @ (case audioContextsRef s of
          Some ctxs \<Rightarrow> [ContextClose (ctx_input ctxs), ContextClose (ctx_output ctxs)]
        | None \<Rightarrow> [])
     @ (case sessionRef s of Some session \<Rightarrow> [SessionClose session] | None \<Rightarrow> [])
     @ (let fullTranscript = join '' '' (map entry_text (filter isUser (liveTranscription s)))
        in if trim fullTranscript \<noteq> []
           then [TriageCall ((input s)\<lparr>customer_message := fullTranscript\<rparr>)] else [])"
proof -
  have e: "liveTranscription s = [] \<Longrightarrow>
      trim (join '' '' (map entry_text (filter isUser (liveTranscription s)))) = []"
    by (simp add: trim_def)
  show ?thesis
    unfolding stopLiveTriage_def handleTriage_def Let_def
    using e by (auto split: option.splits simp: case_prod_beta)
qed

lemma stop_state:
  "fst (stopLiveTriage s) =
     (let fullTranscript = join '' '' (map entry_text (filter isUser (liveTranscription s)));
          s4 = s\<lparr>streamRef := None, audioContextsRef := None, sessionRef := None,
                 isLiveMode := False\<rparr>
      in if trim fullTranscript \<noteq> []
         then s4\<lparr>input := (input s)\<lparr>customer_message := fullTranscript\<rparr>,
                 loading := True, error_msg := None\<rparr>
         else s4)"
proof -
  have e: "liveTranscription s = [] \<Longrightarrow>
      trim (join '' '' (map entry_text (filter isUser (liveTranscription s)))) = []"
    by (simp add: trim_def)
  show ?thesis
    unfolding stopLiveTriage_def handleTriage_def Let_def
    using e by (cases s) (auto split: option.splits simp: case_prod_beta)
qed

lemma triage_calls_append: "triage_calls (xs @ ys) = triage_calls xs @ triage_calls ys"
  by (simp add: triage_calls_def)

lemma triage_calls_releases:
  "triage_calls (map TrackStop ts) = []"
  "triage_calls (case a of Some ctxs \<Rightarrow> [ContextClose (ctx_input ctxs), ContextClose (ctx_output ctxs)] | None \<Rightarrow> []) = []"
  "triage_calls (case b of Some session \<Rightarrow> [SessionClose session] | None \<Rightarrow> []) = []"
  "triage_calls (case c of Some tracks \<Rightarrow> map TrackStop tracks | None \<Rightarrow> []) = []"
  by (induction ts) (auto simp: triage_calls_def split: option.splits)

text \<open>
  Claim C4, as amended. When the texts of the user-attributed entries of the transcript
  log, joined with single spaces in log order, are not blank, stopping the session makes
  exactly one call of the triage service, after the releases of the teardown, with that
  joined text as the customer message and the other input fields as last set; when the
  joined text is blank (no user entry, or only white space) it makes none. The claim as
  stated promises a call for every log with a user-attributed entry.
\<close>

theorem stop_triggers_one_triage:
  "(trim (join '' '' (map entry_text (filter isUser (liveTranscription s)))) \<noteq> [] \<longrightarrow>
      triage_calls (snd (stopLiveTriage s)) =
        [(input s)\<lparr>customer_message :=
                     join '' '' (map entry_text (filter isUser (liveTranscription s)))\<rparr>]
      \<and> (\<exists>releases. list_all is_release releases \<and>
            snd (stopLiveTriage s) = releases @
              [TriageCall ((input s)\<lparr>customer_message :=
                     join '' '' (map entry_text (filter isUser (liveTranscription s)))\<rparr>)]))
   \<and> (trim (join '' '' (map entry_text (filter isUser (liveTranscription s)))) = [] \<longrightarrow>
      triage_calls (snd (stopLiveTriage s)) = [])"
proof -
  let ?full = "join '' '' (map entry_text (filter isUser (liveTranscription s)))"
  let ?rel = "(case streamRef s of Some tracks \<Rightarrow> map TrackStop tracks | None \<Rightarrow> [])
     @ (case audioContextsRef s of
          Some ctxs \<Rightarrow> [ContextClose (ctx_input ctxs), ContextClose (ctx_output ctxs)]
        | None \<Rightarrow> [])
     @ (case sessionRef s of Some session \<Rightarrow> [SessionClose session] | None \<Rightarrow> [])"
  have rel: "list_all is_release ?rel"
    by (auto split: option.splits simp: list_all_iff)
  have tc: "triage_calls ?rel = []"
    by (simp add: triage_calls_append triage_calls_releases)
  have 1: "trim ?full \<noteq> [] \<Longrightarrow> snd (stopLiveTriage s) = ?rel @ [TriageCall ((input s)\<lparr>customer_message := ?full\<rparr>)]"
    unfolding stop_effects Let_def by simp
  have 2: "trim ?full = [] \<Longrightarrow> snd (stopLiveTriage s) = ?rel"
    unfolding stop_effects Let_def by simp
  have one: "triage_calls [TriageCall i] = [i]" for i
    by (simp add: triage_calls_def)
  have 3: "triage_calls (snd (stopLiveTriage s)) = [(input s)\<lparr>customer_message := ?full\<rparr>]"
    if t: "trim ?full \<noteq> []"
  proof -
    have "triage_calls (snd (stopLiveTriage s)) =
        triage_calls ?rel @ triage_calls [TriageCall ((input s)\<lparr>customer_message := ?full\<rparr>)]"
      unfolding 1[OF t] by (rule triage_calls_append)
    then show ?thesis unfolding tc one by simp
  qed
  have 4: "trim ?full = [] \<Longrightarrow> triage_calls (snd (stopLiveTriage s)) = []"
    unfolding 2 by (rule tc)
  show ?thesis using 1 3 4 rel by blast
qed

text \<open>
  Claim C5. Stopping twice in a row: the second call releases nothing and leaves the
  state as the first call left it; the first call releases what is held, in the order
  microphone tracks, input context, output context, session, skipping what is not held,
  and leaves no resource held. \<open>stopLiveTriage\<close> has no failing branch. (The call of
  the triage service that follows the teardown is not a release; each stop makes it.)
\<close>

theorem stop_twice:
  "fst (stopLiveTriage (fst (stopLiveTriage s))) = fst (stopLiveTriage s)
   \<and> filter is_release (snd (stopLiveTriage (fst (stopLiveTriage s)))) = []
   \<and> filter is_release (snd (stopLiveTriage s)) =
       (case streamRef s of Some tracks \<Rightarrow> map TrackStop tracks | None \<Rightarrow> [])
       @ (case audioContextsRef s of
            Some ctxs \<Rightarrow> [ContextClose (ctx_input ctxs), ContextClose (ctx_output ctxs)]
          | None \<Rightarrow> [])
       @ (case sessionRef s of Some session \<Rightarrow> [SessionClose session] | None \<Rightarrow> [])
   \<and> streamRef (fst (stopLiveTriage s)) = None
   \<and> audioContextsRef (fst (stopLiveTriage s)) = None
   \<and> sessionRef (fst (stopLiveTriage s)) = None"
proof -
  let ?s1 = "fst (stopLiveTriage s)"
  have refs: "streamRef ?s1 = None" "audioContextsRef ?s1 = None" "sessionRef ?s1 = None"
    unfolding stop_state Let_def by simp_all
  have keep: "liveTranscription ?s1 = liveTranscription s"
    unfolding stop_state Let_def by simp
  have a: "fst (stopLiveTriage ?s1) = ?s1"
    unfolding stop_state[of ?s1] keep Let_def
    unfolding stop_state[of s] Let_def by (cases s) simp
  have b: "filter is_release (snd (stopLiveTriage ?s1)) = []"
    unfolding stop_effects[of ?s1] refs Let_def by simp
  have c: "filter is_release (snd (stopLiveTriage s)) =
       (case streamRef s of Some tracks \<Rightarrow> map TrackStop tracks | None \<Rightarrow> [])
       @ (case audioContextsRef s of
            Some ctxs \<Rightarrow> [ContextClose (ctx_input ctxs), ContextClose (ctx_output ctxs)]
          | None \<Rightarrow> [])
       @ (case sessionRef s of Some session \<Rightarrow> [SessionClose session] | None \<Rightarrow> [])"
    unfolding stop_effects[of s] Let_def by (auto split: option.splits simp: filter_id_conv)
  show ?thesis using a b c refs by simp
qed

lemma voice_session_transcript:
  "join '' '' (map entry_text (filter isUser (liveTranscription voice_session)))
     = ''I can't log in It just times out''"
  by (simp add: voice_session_def)

lemma blank_session_transcript:
  "join '' '' (map entry_text (filter isUser (liveTranscription blank_session))) = '' ''"
  by (simp add: blank_session_def)

theorem stop_triggers_one_triage_witness:
  "trim (join '' '' (map entry_text (filter isUser (liveTranscription voice_session)))) \<noteq> []
   \<and> triage_calls (snd (stopLiveTriage voice_session)) =
       [\<lparr>customer_message = ''I can't log in It just times out'', account_tier = Pro,
         recent_activity_summary = ''Upgraded plan yesterday'', use_search = Some False\<rparr>]
   \<and> trim (join '' '' (map entry_text (filter isUser (liveTranscription blank_session)))) = []
   \<and> triage_calls (snd (stopLiveTriage blank_session)) = []"
proof -
  have a: "trim (join '' '' (map entry_text (filter isUser (liveTranscription voice_session)))) \<noteq> []"
    unfolding voice_session_transcript by (simp add: trim_def is_js_whitespace_def)
  have b: "trim (join '' '' (map entry_text (filter isUser (liveTranscription blank_session)))) = []"
    unfolding blank_session_transcript by (simp add: trim_def is_js_whitespace_def)
  have i: "(input voice_session)\<lparr>customer_message := ''I can't log in It just times out''\<rparr>
      = \<lparr>customer_message = ''I can't log in It just times out'', account_tier = Pro,
         recent_activity_summary = ''Upgraded plan yesterday'', use_search = Some False\<rparr>"
    by (simp add: voice_session_def)
  from stop_triggers_one_triage[of voice_session, THEN conjunct1, rule_format, OF a, THEN conjunct1]
  have c: "triage_calls (snd (stopLiveTriage voice_session)) =
       [\<lparr>customer_message = ''I can't log in It just times out'', account_tier = Pro,
         recent_activity_summary = ''Upgraded plan yesterday'', use_search = Some False\<rparr>]"
    unfolding voice_session_transcript i .
  from stop_triggers_one_triage[of blank_session, THEN conjunct2, rule_format, OF b]
  have d: "triage_calls (snd (stopLiveTriage blank_session)) = []" .
  show ?thesis using a b c d by blast
qed

text \<open>The claim C4 as stated fails for a log whose only entry is a user's blank.\<close>

theorem stop_triggers_one_triage_counterexample:
  "liveTranscription blank_session = [\<lparr>entry_text = '' '', isUser = True\<rparr>]
   \<and> isUser (liveTranscription blank_session ! 0)
   \<and> triage_calls (snd (stopLiveTriage blank_session)) = []"
proof -
  have "trim '' '' = []" by (simp add: trim_def is_js_whitespace_def)
  then have "triage_calls (snd (stopLiveTriage blank_session)) = []"
    unfolding stop_effects blank_session_transcript
    by (simp add: blank_session_def voice_session_def triage_calls_def)
  then show ?thesis by (simp add: blank_session_def)
qed

theorem stop_twice_witness:
  "filter is_release (snd (stopLiveTriage voice_session))
     = [TrackStop 0, ContextClose 0, ContextClose 1, SessionClose 0]
   \<and> filter is_release (snd (stopLiveTriage (fst (stopLiveTriage voice_session)))) = []
   \<and> fst (stopLiveTriage (fst (stopLiveTriage voice_session))) = fst (stopLiveTriage voice_session)"
proof -
  note th = stop_twice[of voice_session]
  from th have a: "filter is_release (snd (stopLiveTriage voice_session))
     = [TrackStop 0, ContextClose 0, ContextClose 1, SessionClose 0]"
    by (simp add: voice_session_def)
  from th a show ?thesis by blast
qed

end
